theory Spec2Isabelle
  imports Complex_Main "HOL-Library.Product_Lexorder" "HOL-Library.Word"
begin

section \<open>Arrays of floating-point values\<close>

text \<open>
  The notebooks compute on numpy arrays of dtype float32 (the ratings, after
  \<^verbatim>\<open>ratings.astype('float32')\<close>) and float64 (the factors that the ranker reads). A
  value is a finite number or one of the IEEE special values. A format gives the
  number of bits of the significand, the exponent of the smallest normal number, and the
  exponent of the first power of two that is too large to be finite.
\<close>

datatype npfloat = Fin real | PInf | NInf | NaN

datatype np_error = IndexError | ValueError

record format =
  prec :: nat
  emin :: int
  ebound :: int

definition binary64 :: format where
  "binary64 = \<lparr>prec = 53, emin = - 1022, ebound = 1024\<rparr>"

definition binary32 :: format where
  "binary32 = \<lparr>prec = 24, emin = - 126, ebound = 128\<rparr>"

fun inf_of_sign :: "real \<Rightarrow> npfloat" where
  "inf_of_sign s = (if 0 < s then PInf else if s < 0 then NInf else NaN)"

text \<open>
  Rounding to nearest, ties to even, as IEEE 754 asks of \<open>+\<close>, \<open>*\<close>, \<open>/\<close> and the square
  root. \<open>rne\<close> rounds a real number to an integer. \<open>ulp_exp\<close> is the exponent of the unit in
  the last place at magnitude \<open>a\<close> (the subnormal numbers share the unit of the smallest
  normal number). \<open>rnd\<close> rounds the magnitude to a whole number of units; a result of
  \<open>2 ^ ebound\<close> or more is an infinity, and a result that rounds to no unit is zero. The
  sign of a zero is not kept.
\<close>

definition rne :: "real \<Rightarrow> int" where
  "rne t =
     (if t - of_int \<lfloor>t\<rfloor> < 1 / 2 then \<lfloor>t\<rfloor>
      else if 1 / 2 < t - of_int \<lfloor>t\<rfloor> then \<lfloor>t\<rfloor> + 1
      else if even \<lfloor>t\<rfloor> then \<lfloor>t\<rfloor> else \<lfloor>t\<rfloor> + 1)"

definition ulp_exp :: "format \<Rightarrow> real \<Rightarrow> int" where
  "ulp_exp f a = max (emin f) \<lfloor>log 2 a\<rfloor> - (int (prec f) - 1)"

definition rnd :: "format \<Rightarrow> real \<Rightarrow> npfloat" where
  "rnd f r =
     (if r = 0 then Fin 0
      else (let q = 2 powr of_int (ulp_exp f \<bar>r\<bar>);
                m = of_int (rne (\<bar>r\<bar> / q)) * q
            in if 2 powr of_int (ebound f) \<le> m then inf_of_sign r else Fin (sgn r * m)))"

text \<open>
  The operations on values of a format: the exact result of two finite operands is
  rounded, and the special values follow the IEEE rules that numpy applies with its
  default error state (a RuntimeWarning is printed, nothing is raised): \<open>0/0\<close>,
  \<open>inf - inf\<close>, \<open>inf * 0\<close>, \<open>inf / inf\<close> and the square root of a negative number are NaN,
  and NaN propagates through every operation.
\<close>

fun np_sgn :: "npfloat \<Rightarrow> real" where
  "np_sgn (Fin r) = sgn r"
| "np_sgn PInf = 1"
| "np_sgn NInf = - 1"
| "np_sgn NaN = 0"

fun np_neg :: "npfloat \<Rightarrow> npfloat" where
  "np_neg (Fin r) = Fin (- r)"
| "np_neg PInf = NInf"
| "np_neg NInf = PInf"
| "np_neg NaN = NaN"

fun fl_add :: "format \<Rightarrow> npfloat \<Rightarrow> npfloat \<Rightarrow> npfloat" where
  "fl_add f (Fin a) (Fin b) = rnd f (a + b)"
| "fl_add f NaN y = NaN"
| "fl_add f x NaN = NaN"
| "fl_add f PInf NInf = NaN"
| "fl_add f NInf PInf = NaN"
| "fl_add f PInf y = PInf"
| "fl_add f x PInf = PInf"
| "fl_add f NInf y = NInf"
| "fl_add f x NInf = NInf"

definition fl_sub :: "format \<Rightarrow> npfloat \<Rightarrow> npfloat \<Rightarrow> npfloat" where
  "fl_sub f x y = fl_add f x (np_neg y)"

fun fl_mul :: "format \<Rightarrow> npfloat \<Rightarrow> npfloat \<Rightarrow> npfloat" where
  "fl_mul f (Fin a) (Fin b) = rnd f (a * b)"
| "fl_mul f NaN y = NaN"
| "fl_mul f x NaN = NaN"
| "fl_mul f x y = inf_of_sign (np_sgn x * np_sgn y)"

text \<open>
  Division. A finite number divided by zero is an infinity of the sign of the numerator
  (the zero counts as \<open>+0\<close>, which is what a magnitude and a count are), and \<open>0/0\<close> is
  NaN. HOL's own \<open>x / 0 = 0\<close> on the reals is never used: the zero divisor is a branch of
  its own.
\<close>

fun fl_div :: "format \<Rightarrow> npfloat \<Rightarrow> npfloat \<Rightarrow> npfloat" where
  "fl_div f (Fin a) (Fin b) = (if b = 0 then inf_of_sign (sgn a) else rnd f (a / b))"
| "fl_div f NaN y = NaN"
| "fl_div f x NaN = NaN"
| "fl_div f (Fin a) y = Fin 0"
| "fl_div f x (Fin b) = inf_of_sign (np_sgn x * (if b < 0 then - 1 else 1))"
| "fl_div f x y = NaN"

fun fl_sqrt :: "format \<Rightarrow> npfloat \<Rightarrow> npfloat" where
  "fl_sqrt f (Fin r) = (if r < 0 then NaN else rnd f (sqrt r))"
| "fl_sqrt f PInf = PInf"
| "fl_sqrt f NInf = NaN"
| "fl_sqrt f NaN = NaN"

text \<open>Storing a value in an array of a narrower format rounds it again.\<close>

fun fl_cast :: "format \<Rightarrow> npfloat \<Rightarrow> npfloat" where
  "fl_cast f (Fin r) = rnd f r"
| "fl_cast f x = x"

text \<open>An array of a dtype holds values of its format: the special values, and the numbers
  that rounding leaves as they are.\<close>

definition is_value :: "format \<Rightarrow> npfloat \<Rightarrow> bool" where
  "is_value f x = (case x of Fin r \<Rightarrow> rnd f r = Fin r | _ \<Rightarrow> True)"

definition has_dtype :: "format \<Rightarrow> npfloat list list \<Rightarrow> bool" where
  "has_dtype f m = list_all (list_all (is_value f)) m"

text \<open>The float64 operations of the ranker and of the SVD assembler.\<close>

definition np_add :: "npfloat \<Rightarrow> npfloat \<Rightarrow> npfloat" where
  "np_add = fl_add binary64"

definition np_mul :: "npfloat \<Rightarrow> npfloat \<Rightarrow> npfloat" where
  "np_mul = fl_mul binary64"

definition np_div :: "npfloat \<Rightarrow> npfloat \<Rightarrow> npfloat" where
  "np_div = fl_div binary64"

definition np_sqrt :: "npfloat \<Rightarrow> npfloat" where
  "np_sqrt = fl_sqrt binary64"

fun np_isnan :: "npfloat \<Rightarrow> bool" where
  "np_isnan NaN = True"
| "np_isnan x = False"

fun np_isfinite :: "npfloat \<Rightarrow> bool" where
  "np_isfinite (Fin r) = True"
| "np_isfinite x = False"

text \<open>
  The order numpy sorts by: \<open>-inf\<close>, the finite numbers, \<open>+inf\<close>, and NaN after
  everything else. \<open>sort_rank\<close> maps a value to its place in that order, a pair compared
  lexicographically.
\<close>

fun sort_rank :: "npfloat \<Rightarrow> nat \<times> real" where
  "sort_rank NInf = (0, 0)"
| "sort_rank (Fin r) = (1, r)"
| "sort_rank PInf = (2, 0)"
| "sort_rank NaN = (3, 0)"

text \<open>The comparisons \<open>x > y\<close> and \<open>x <= y\<close> of IEEE: false as soon as one side is NaN.\<close>

definition np_gt :: "npfloat \<Rightarrow> npfloat \<Rightarrow> bool" where
  "np_gt x y = (\<not> np_isnan x \<and> \<not> np_isnan y \<and> sort_rank y < sort_rank x)"

definition np_le :: "npfloat \<Rightarrow> npfloat \<Rightarrow> bool" where
  "np_le x y = (\<not> np_isnan x \<and> \<not> np_isnan y \<and> sort_rank x \<le> sort_rank y)"

text \<open>
  A sum of an array adds its elements one after the other into an accumulator. numpy
  fixes no order for a sum (it adds in pairs and in blocks, and \<open>np.dot\<close> leaves the
  order to the BLAS library), and the order matters only where a partial sum is rounded.
  The theorems on the ranker do not depend on the values of the sums, and on the example
  arrays every partial sum is exact or infinite in every order.
\<close>

definition np_sum :: "npfloat list \<Rightarrow> npfloat" where
  "np_sum xs = foldl np_add (Fin 0) xs"

text \<open>
  \<open>np.argsort\<close>: the indices that sort the array. numpy documents no order for equal
  elements with its default kind; here they keep their index order. No statement below
  depends on the order of equal elements, and no example array has two rows of equal
  similarity.
\<close>

definition argsort :: "('a::linorder) list \<Rightarrow> nat list" where
  "argsort ks = map snd (sort_key fst (zip ks [0..<length ks]))"

definition np_argsort :: "npfloat list \<Rightarrow> nat list" where
  "np_argsort xs = argsort (map sort_rank xs)"

text \<open>
  A two-dimensional array is the list of its rows; numpy arrays are rectangular, which
  \<open>is_matrix\<close> says of a list of rows.
\<close>

type_synonym matrix = "npfloat list list"

definition ncols :: "'a list list \<Rightarrow> nat" where
  "ncols m = (case m of [] \<Rightarrow> 0 | r # _ \<Rightarrow> length r)"

definition is_matrix :: "'a list list \<Rightarrow> bool" where
  "is_matrix m = (\<forall>r \<in> set m. length r = ncols m)"

definition fin_matrix :: "matrix \<Rightarrow> bool" where
  "fin_matrix m = (\<forall>r \<in> set m. \<forall>v \<in> set r. np_isfinite v)"

text \<open>
  Indexing along the first axis with a Python integer: a negative index counts from the
  end, and an index outside \<open>[-n, n)\<close> raises IndexError.
\<close>

definition np_index :: "'a list \<Rightarrow> int \<Rightarrow> np_error + 'a" where
  "np_index xs i =
     (if 0 \<le> i \<and> i < int (length xs) then Inr (xs ! nat i)
      else if - int (length xs) \<le> i \<and> i < 0 then Inr (xs ! nat (int (length xs) + i))
      else Inl IndexError)"

text \<open>The slice \<open>xs[:n]\<close>: a negative \<open>n\<close> drops that many elements from the end.\<close>

definition slice_to :: "'a list \<Rightarrow> int \<Rightarrow> 'a list" where
  "slice_to xs n = (if 0 \<le> n then take (nat n) xs else take (length xs - nat (- n)) xs)"

section \<open>The similarity ranker\<close>

text \<open>
  \<^verbatim>\<open>
  def top_cosine_similarity(data, movie_id, top_n=10):
      index = movie_id - 1
      movie_row = data[index, :]
      magnitude = np.sqrt(np.einsum('ij, ij -> i', data, data))
      similarity = np.dot(movie_row, data.T) / (magnitude[index] * magnitude)
      sort_indices = np.argsort(-similarity)+1
      return sort_indices[:top_n]
  \<close>
\<close>

definition vdot :: "npfloat list \<Rightarrow> npfloat list \<Rightarrow> npfloat" where
  "vdot u v = np_sum (map2 np_mul u v)"

definition einsum_ij_ij_i :: "matrix \<Rightarrow> matrix \<Rightarrow> npfloat list" where
  "einsum_ij_ij_i a b = map2 vdot a b"

definition magnitude :: "matrix \<Rightarrow> npfloat list" where
  "magnitude data = map np_sqrt (einsum_ij_ij_i data data)"

definition similarity :: "matrix \<Rightarrow> int \<Rightarrow> np_error + npfloat list" where
  "similarity data index =
     (case np_index data index of
        Inl e \<Rightarrow> Inl e
      | Inr movie_row \<Rightarrow>
          (case np_index (magnitude data) index of
             Inl e \<Rightarrow> Inl e
           | Inr mi \<Rightarrow>
               Inr (map2 np_div (map (vdot movie_row) data)
                                (map (np_mul mi) (magnitude data)))))"

definition top_cosine_similarity :: "matrix \<Rightarrow> int \<Rightarrow> int \<Rightarrow> np_error + int list" where
  "top_cosine_similarity data movie_id top_n =
     (let index = movie_id - 1 in
      case similarity data index of
        Inl e \<Rightarrow> Inl e
      | Inr sim \<Rightarrow>
          (let sort_indices = map (\<lambda>i. int i + 1) (np_argsort (map np_neg sim))
           in Inr (slice_to sort_indices top_n)))"

section \<open>The randomized SVD pipeline\<close>

definition has_shape :: "'a list list \<Rightarrow> nat \<Rightarrow> nat \<Rightarrow> bool" where
  "has_shape m r c = (length m = r \<and> (\<forall>row \<in> set m. length row = c))"

subsection \<open>Demeaning the ratings\<close>

text \<open>
  \<^verbatim>\<open>
  ratings = ratings.astype('float32')
  ...
  # demeaning ignoring nans along users
  ratings -= np.nanmean(ratings, axis=0, keepdims=True)
  # set nans to zero after demeaning
  ratings[np.isnan(ratings)] = 0
  \<close>
  The array is float32. \<open>np.nanmean\<close> replaces the NaN entries by zero, sums each column
  in float32 from the first row to the last, and divides by the number of entries that
  were not NaN; the division of a float32 sum by an integer count is done in float64 and
  stored back as float32. On a column with no entry it divides \<open>0\<close> by \<open>0\<close>, which is
  NaN.
\<close>

definition column :: "'a list list \<Rightarrow> nat \<Rightarrow> 'a list" where
  "column m j = map (\<lambda>r. r ! j) m"

definition nan_to_zero :: "npfloat \<Rightarrow> npfloat" where
  "nan_to_zero v = (if np_isnan v then Fin 0 else v)"

definition sum32 :: "npfloat list \<Rightarrow> npfloat" where
  "sum32 xs = foldl (fl_add binary32) (Fin 0) xs"

definition nanmean :: "npfloat list \<Rightarrow> npfloat" where
  "nanmean col =
     fl_cast binary32
       (fl_div binary64 (sum32 (map nan_to_zero col))
                        (Fin (real (length (filter (\<lambda>v. \<not> np_isnan v) col)))))"

definition nanmean_axis0 :: "matrix \<Rightarrow> npfloat list" where
  "nanmean_axis0 m = map (\<lambda>j. nanmean (column m j)) [0..<ncols m]"

definition demean :: "matrix \<Rightarrow> matrix" where
  "demean ratings =
     (let means = nanmean_axis0 ratings;
          centred = map (\<lambda>r. map2 (fl_sub binary32) r means) ratings
      in map (map nan_to_zero) centred)"

subsection \<open>The projector\<close>

text \<open>
  \<^verbatim>\<open>
  def randomize(x, k, thresh=0):
      mapping = OPUMap(n_components=k)
      x = (x > thresh).astype('uint8')
      y = mapping.transform(x)
      return y
  \<close>
  \<open>OPUMap\<close> belongs to the vendor's library and drives the optical device. The model
  takes its \<open>transform\<close> as a function \<open>opu\<close> of the number of components and the
  binary array.
\<close>

definition binarize :: "matrix \<Rightarrow> npfloat \<Rightarrow> 8 word list list" where
  "binarize x thresh = map (map (\<lambda>v. if np_gt v thresh then 1 else 0)) x"

definition randomize ::
  "(nat \<Rightarrow> 8 word list list \<Rightarrow> 'y list list) \<Rightarrow> matrix \<Rightarrow> nat \<Rightarrow> npfloat \<Rightarrow> 'y list list" where
  "randomize opu x k thresh = (let x' = binarize x thresh; y = opu k x' in y)"

text \<open>
  The contract of the device (section 6 of the specification): a binary array of
  \<open>n_samples\<close> rows mapped with output dimension \<open>k\<close> gives \<open>n_samples\<close> vectors of
  dimension \<open>k\<close>.
\<close>

definition opu_contract :: "(nat \<Rightarrow> 8 word list list \<Rightarrow> 'y list list) \<Rightarrow> bool" where
  "opu_contract opu = (\<forall>k b. is_matrix b \<longrightarrow> has_shape (opu k b) (length b) k)"

text \<open>A software stand-in for the device, used to run the model: every component of an
  output vector is the number of ones of the input row (modulo 256).\<close>

definition count_opu :: "nat \<Rightarrow> 8 word list list \<Rightarrow> 8 word list list" where
  "count_opu k b = map (\<lambda>r. replicate k (sum_list r)) b"

subsection \<open>The interpolative decomposition\<close>

text \<open>
  \<^verbatim>\<open>
  def interp_dec(A, k):
      idx, proj = sli.interp_decomp(A.astype('float64'), k)
      X = np.hstack([np.eye(k), proj])[:, np.argsort(idx)]
      return idx[:k], X
  \<close>
  \<open>sli.interp_decomp\<close> is scipy's; the model takes it as a function \<open>decomp\<close> that
  returns the column indices and the coefficients, or raises.
\<close>

definition eye :: "nat \<Rightarrow> matrix" where
  "eye k = map (\<lambda>i. map (\<lambda>j. if i = j then Fin 1 else Fin 0) [0..<k]) [0..<k]"

text \<open>\<open>np.hstack([a, b])\<close> of two-dimensional arrays: ValueError unless they have as many
  rows.\<close>

definition hstack :: "'a list list \<Rightarrow> 'a list list \<Rightarrow> np_error + 'a list list" where
  "hstack a b = (if length a = length b then Inr (map2 (@) a b) else Inl ValueError)"

text \<open>\<open>m[:, js]\<close> with an array of column indices: IndexError when one is out of range.\<close>

definition take_cols :: "'a list list \<Rightarrow> nat list \<Rightarrow> np_error + 'a list list" where
  "take_cols m js =
     (if \<forall>row \<in> set m. \<forall>j \<in> set js. j < length row
      then Inr (map (\<lambda>row. map (\<lambda>j. row ! j) js) m) else Inl IndexError)"


type_synonym interp_decomp = "matrix \<Rightarrow> nat \<Rightarrow> np_error + (nat list \<times> matrix)"

definition interp_dec :: "interp_decomp \<Rightarrow> matrix \<Rightarrow> nat \<Rightarrow> np_error + (nat list \<times> matrix)" where
  "interp_dec decomp A k =
     (case decomp A k of
        Inl e \<Rightarrow> Inl e
      | Inr (idx, proj) \<Rightarrow>
          (case hstack (eye k) proj of
             Inl e \<Rightarrow> Inl e
           | Inr h \<Rightarrow>
               (case take_cols h (argsort idx) of
                  Inl e \<Rightarrow> Inl e
                | Inr X \<Rightarrow> Inr (take k idx, X))))"

subsection \<open>The randomized SVD assembler\<close>














section \<open>Cosine similarity on real vectors\<close>

text \<open>
  The glossary of the specification: cosine similarity is the normalized dot product of
  two vectors. This is the definition on real vectors that the ranker is compared with;
  \<open>fin_val\<close> reads the number out of a finite value.
\<close>

fun fin_val :: "npfloat \<Rightarrow> real" where
  "fin_val (Fin r) = r"
| "fin_val x = 0"

definition rdot :: "real list \<Rightarrow> real list \<Rightarrow> real" where
  "rdot u v = sum_list (map2 (*) u v)"

definition cosine_similarity :: "real list \<Rightarrow> real list \<Rightarrow> real" where
  "cosine_similarity u v = rdot u v / (sqrt (rdot u u) * sqrt (rdot v v))"

text \<open>The row of the item with identifier \<open>i\<close> (identifiers start at 1), as real numbers.\<close>

definition item_row :: "matrix \<Rightarrow> int \<Rightarrow> real list" where
  "item_row data i = map fin_val (data ! nat (i - 1))"

text \<open>
  The order of the result of \<open>np.argsort(-similarity)\<close>, on the similarities: \<open>x\<close> comes
  no later than \<open>y\<close> when \<open>y\<close> is NaN, or when neither is NaN and \<open>y <= x\<close>.
\<close>

definition ranked_before :: "npfloat \<Rightarrow> npfloat \<Rightarrow> bool" where
  "ranked_before x y = (np_isnan y \<or> (\<not> np_isnan x \<and> np_le y x))"

definition zero_row :: "npfloat list \<Rightarrow> bool" where
  "zero_row r = (\<forall>v \<in> set r. v = Fin 0)"

text \<open>
  The ranker as section 4.4 of the specification words its edge case: a similarity that
  is undefined counts as \<open>0\<close>. It differs from \<open>top_cosine_similarity\<close> in that one
  replacement only.
\<close>

definition top_cosine_similarity_zero_fallback :: "matrix \<Rightarrow> int \<Rightarrow> int \<Rightarrow> np_error + int list" where
  "top_cosine_similarity_zero_fallback data movie_id top_n =
     (let index = movie_id - 1 in
      case similarity data index of
        Inl e \<Rightarrow> Inl e
      | Inr sim \<Rightarrow>
          (let sim0 = map nan_to_zero sim;
               sort_indices = map (\<lambda>i. int i + 1) (np_argsort (map np_neg sim0))
           in Inr (slice_to sort_indices top_n)))"

section \<open>Example arrays\<close>

definition ex_zero_row :: matrix where
  "ex_zero_row = [[Fin 1], [Fin 0], [Fin (- 1)]]"

definition ex_three :: matrix where
  "ex_three =
     [[Fin 2, Fin 0, Fin 0, Fin 0], [Fin 0, Fin 0, Fin 0, Fin 0],
      [Fin (- 2), Fin 0, Fin 0, Fin 0], [Fin 1, Fin 1, Fin 1, Fin 1]]"

definition ex_rank :: matrix where
  "ex_rank = [[Fin 2, Fin 0, Fin 0, Fin 0], [Fin (- 2), Fin 0, Fin 0, Fin 0], [Fin 1, Fin 1, Fin 1, Fin 1]]"

text \<open>Finite float64 entries; the square of \<open>2 ^ 700\<close> is not finite.\<close>

definition ex_large :: matrix where
  "ex_large = [[Fin (2 ^ 700)], [Fin 1]]"

definition ex_large_rank :: matrix where
  "ex_large_rank =
     [[Fin (2 ^ 700), Fin 0, Fin 0, Fin 0], [Fin 1, Fin 0, Fin 0, Fin 0], [Fin 1, Fin 1, Fin 1, Fin 1]]"

text \<open>An interpolative decomposition of \<open>ex_wide\<close> of rank 2: its columns 2 and 0 are
  kept, and column 1 is half their sum.\<close>

definition ex_wide :: matrix where
  "ex_wide = [[Fin 1, Fin 2, Fin 3], [Fin 4, Fin 5, Fin 6]]"

definition ex_decomp :: interp_decomp where
  "ex_decomp A k = Inr ([2, 0, 1], [[Fin (1 / 2)], [Fin (1 / 2)]])"

text \<open>A matrix of one row, and a decomposition of it asked for rank 2: the indices are a
  permutation of the columns, and the coefficients have the one row of the matrix.\<close>

definition ex_one_row :: matrix where
  "ex_one_row = [[Fin 1, Fin 2, Fin 3]]"

definition ex_decomp_one_row :: interp_decomp where
  "ex_decomp_one_row A k = Inr ([2, 0, 1], [[Fin (1 / 2)]])"



definition ex_ratings :: matrix where
  "ex_ratings = [[Fin 1, NaN], [Fin 3, NaN], [NaN, NaN]]"

text \<open>Finite float32 entries whose sum is not finite.\<close>

definition ex_large_ratings :: matrix where
  "ex_large_ratings = [[Fin (2 ^ 127)], [Fin (2 ^ 127)]]"

section \<open>Properties of the projector\<close>

lemma is_matrix_map_map:
  assumes "is_matrix x"
  shows "is_matrix (map (map f) x)"
proof (cases x)
  case Nil
  then show ?thesis by (simp add: is_matrix_def)
next
  case (Cons r rs)
  with assms show ?thesis by (auto simp: is_matrix_def ncols_def)
qed

lemma count_opu_contract: "opu_contract count_opu"
  by (simp add: opu_contract_def count_opu_def has_shape_def)

text \<open>
  C6. For every array \<open>x\<close> and every output dimension \<open>k\<close>, \<open>randomize\<close> returns an array
  with as many rows as \<open>x\<close>, each of length \<open>k\<close>, for every device \<open>opu\<close> that meets the
  contract of the specification.
\<close>

theorem randomize_shape:
  assumes "opu_contract opu" and "is_matrix x"
  shows "has_shape (randomize opu x k thresh) (length x) k"
proof -
  have "is_matrix (binarize x thresh)"
    unfolding binarize_def using assms(2) by (rule is_matrix_map_map)
  with assms(1) have "has_shape (opu k (binarize x thresh)) (length (binarize x thresh)) k"
    unfolding opu_contract_def by blast
  then show ?thesis by (simp add: randomize_def binarize_def)
qed

theorem randomize_shape_witness:
  "opu_contract count_opu \<and> is_matrix [[Fin 2, Fin (- 1)], [Fin 0, Fin 3]]
   \<and> has_shape (randomize count_opu [[Fin 2, Fin (- 1)], [Fin 0, Fin 3]] 3 (Fin 0)) 2 3
   \<and> randomize count_opu [[Fin 2, Fin (- 1)], [Fin 0, Fin 3]] 3 (Fin 0) = [[1, 1, 1], [1, 1, 1]]"
proof -
  have m: "is_matrix [[Fin 2, Fin (- 1)], [Fin 0, Fin 3]]"
    by (simp add: is_matrix_def ncols_def)
  have v: "randomize count_opu [[Fin 2, Fin (- 1)], [Fin 0, Fin 3]] 3 (Fin 0) = [[1, 1, 1], [1, 1, 1]]"
    by (simp add: randomize_def binarize_def count_opu_def np_gt_def numeral_3_eq_3)
  from randomize_shape [OF count_opu_contract m, of 3 "Fin 0"]
  have s: "has_shape (randomize count_opu [[Fin 2, Fin (- 1)], [Fin 0, Fin 3]] 3 (Fin 0)) 2 3"
    by (simp add: numeral_2_eq_2)
  show ?thesis by (intro conjI) (rule count_opu_contract m s v)+
qed

text \<open>
  C10. \<open>randomize\<close> sees its input only through the pattern of the entries above the
  threshold: two arrays with the same pattern give the same output, whatever the device
  function is.
\<close>

theorem randomize_depends_on_pattern:
  assumes "length x = length x'"
    and "\<forall>i < length x. length (x ! i) = length (x' ! i)"
    and "\<forall>i < length x. \<forall>j < length (x ! i). np_gt (x ! i ! j) thresh = np_gt (x' ! i ! j) thresh"
  shows "randomize opu x k thresh = randomize opu x' k thresh"
proof -
  have "binarize x thresh = binarize x' thresh"
    unfolding binarize_def using assms
    by (auto intro!: nth_equalityI)
  then show ?thesis by (simp add: randomize_def)
qed

theorem randomize_depends_on_pattern_witness:
  "randomize count_opu [[Fin 5, Fin (- 1), NaN]] 2 (Fin 0)
     = randomize count_opu [[PInf, Fin 0, NInf]] 2 (Fin 0)
   \<and> randomize count_opu [[Fin 5, Fin (- 1), NaN]] 2 (Fin 0) = [[1, 1]]"
proof -
  have "randomize count_opu [[Fin 5, Fin (- 1), NaN]] 2 (Fin 0)
     = randomize count_opu [[PInf, Fin 0, NInf]] 2 (Fin 0)"
    by (rule randomize_depends_on_pattern) (simp_all add: np_gt_def less_Suc_eq nth_Cons')
  moreover have "randomize count_opu [[Fin 5, Fin (- 1), NaN]] 2 (Fin 0) = [[1, 1]]"
    by (simp add: randomize_def binarize_def count_opu_def np_gt_def numeral_2_eq_2)
  ultimately show ?thesis by simp
qed

section \<open>Properties of rounding\<close>

lemma rne_of_int: "rne (of_int n) = n"
  by (simp add: rne_def)

lemma rne_le:
  assumes "t \<le> of_int Y"
  shows "rne t \<le> Y"
proof (cases "t = of_int Y")
  case True
  then show ?thesis by (simp add: rne_of_int)
next
  case False
  with assms have "t < of_int Y" by simp
  then have "\<lfloor>t\<rfloor> < Y" by (simp add: floor_less_iff)
  then show ?thesis by (simp add: rne_def)
qed

lemma rne_ge:
  assumes "of_int Y \<le> t"
  shows "Y \<le> rne t"
proof -
  have "Y \<le> \<lfloor>t\<rfloor>" using assms by (simp add: le_floor_iff)
  then show ?thesis by (simp add: rne_def)
qed

lemma two_powr_int_diff:
  assumes "u \<le> k"
  shows "2 powr of_int k / 2 powr of_int u = (of_int (2 ^ nat (k - u)) :: real)"
proof -
  have "2 powr of_int k / 2 powr of_int u = (2::real) powr (of_int k - of_int u)"
    by (simp add: powr_diff)
  also have "of_int k - of_int u = real (nat (k - u))" using assms by simp
  also have "(2::real) powr real (nat (k - u)) = 2 ^ nat (k - u)"
    by (simp add: powr_realpow)
  finally show ?thesis by simp
qed

lemma ulp_exp_le:
  assumes a: "0 < a" and lt: "a < 2 powr (of_int k + real (prec f))"
    and k: "emin f - (int (prec f) - 1) \<le> k"
  shows "ulp_exp f a \<le> k"
proof -
  have "log 2 a < of_int k + real (prec f)"
    using a lt by (simp add: log_less_iff)
  then have "\<lfloor>log 2 a\<rfloor> < k + int (prec f)"
    by (simp add: floor_less_iff)
  then show ?thesis using k by (simp add: ulp_exp_def)
qed

text \<open>A bound \<open>N * 2^k\<close> with an \<open>N\<close> of at most \<open>prec\<close> bits is a whole number of units
  in the last place of everything below it.\<close>

lemma quotient_integer:
  assumes a: "0 < a" and le: "a \<le> of_int N * 2 powr of_int k"
    and N: "N < 2 ^ prec f" and k: "emin f - (int (prec f) - 1) \<le> k"
  shows "\<exists>Y. of_int N * 2 powr of_int k / 2 powr of_int (ulp_exp f a) = (of_int Y :: real)"
proof -
  have "(of_int N :: real) < of_int (2 ^ prec f)" using N by (simp only: of_int_less_iff)
  then have "(of_int N :: real) < 2 ^ prec f" by simp
  then have "of_int N * 2 powr of_int k < (2::real) ^ prec f * 2 powr of_int k"
    by (rule mult_strict_right_mono) simp
  also have "\<dots> = 2 powr (of_int k + real (prec f))"
    by (simp add: powr_add powr_realpow)
  finally have "a < 2 powr (of_int k + real (prec f))" using le by simp
  with a have u: "ulp_exp f a \<le> k" using k by (rule ulp_exp_le)
  have "of_int N * 2 powr of_int k / 2 powr of_int (ulp_exp f a)
          = (of_int N * (2 powr of_int k / 2 powr of_int (ulp_exp f a)) :: real)" by simp
  also have "\<dots> = of_int (N * 2 ^ nat (k - ulp_exp f a))"
    by (simp only: two_powr_int_diff[OF u] of_int_mult)
  finally show ?thesis by blast
qed

lemma rnd_zero [simp]: "rnd f 0 = Fin 0"
  by (simp add: rnd_def)

lemma rnd_bound_pos:
  assumes a: "0 < a" and le: "a \<le> of_int N * 2 powr of_int k"
    and N: "N < 2 ^ prec f" and k: "emin f - (int (prec f) - 1) \<le> k"
  shows "of_int (rne (a / 2 powr of_int (ulp_exp f a))) * 2 powr of_int (ulp_exp f a)
           \<le> (of_int N * 2 powr of_int k :: real)"
    and "(0::real) \<le> of_int (rne (a / 2 powr of_int (ulp_exp f a))) * 2 powr of_int (ulp_exp f a)"
proof -
  let ?q = "2 powr of_int (ulp_exp f a) :: real"
  have q: "0 < ?q" by simp
  from quotient_integer[OF a le N k] obtain Y where Y: "of_int N * 2 powr of_int k / ?q = of_int Y"
    by blast
  have "a / ?q \<le> of_int N * 2 powr of_int k / ?q"
    using le q by (simp add: divide_right_mono)
  then have "rne (a / ?q) \<le> Y" unfolding Y by (rule rne_le)
  then have "of_int (rne (a / ?q)) * ?q \<le> of_int Y * ?q"
    using q by (simp add: mult_right_mono)
  also have "of_int Y * ?q = of_int N * 2 powr of_int k"
    using Y q by (simp add: field_simps)
  finally show "of_int (rne (a / ?q)) * ?q \<le> of_int N * 2 powr of_int k" .
  have "of_int 0 \<le> a / ?q" using a q by simp
  then have "0 \<le> rne (a / ?q)" by (rule rne_ge)
  then show "0 \<le> of_int (rne (a / ?q)) * ?q" using q by simp
qed

text \<open>Rounding does not pass a bound that is itself a value of the format.\<close>

lemma rnd_bound:
  assumes le: "\<bar>x\<bar> \<le> of_int N * 2 powr of_int k"
    and N: "N < 2 ^ prec f" and k: "emin f - (int (prec f) - 1) \<le> k"
    and fin: "(of_int N * 2 powr of_int k :: real) < 2 powr of_int (ebound f)"
  shows "\<exists>z. rnd f x = Fin z \<and> \<bar>z\<bar> \<le> of_int N * 2 powr of_int k"
proof (cases "x = 0")
  case True
  with le show ?thesis by simp
next
  case False
  then have a: "0 < \<bar>x\<bar>" by simp
  let ?m = "of_int (rne (\<bar>x\<bar> / 2 powr of_int (ulp_exp f \<bar>x\<bar>))) * 2 powr of_int (ulp_exp f \<bar>x\<bar>) :: real"
  have m: "?m \<le> of_int N * 2 powr of_int k" "0 \<le> ?m"
    using rnd_bound_pos[OF a le N k] by simp_all
  then have "\<not> 2 powr of_int (ebound f) \<le> ?m" using fin by simp
  then have "rnd f x = Fin (sgn x * ?m)" using False by (simp add: rnd_def Let_def)
  moreover have "\<bar>sgn x * ?m\<bar> = ?m"
  proof -
    have "\<bar>sgn x * ?m\<bar> = \<bar>sgn x\<bar> * \<bar>?m\<bar>" by (rule abs_mult)
    also have "\<bar>sgn x\<bar> = 1" using False by (simp add: abs_sgn_eq)
    also have "\<bar>?m\<bar> = ?m" using m(2) by (rule abs_of_nonneg)
    finally show ?thesis by simp
  qed
  ultimately show ?thesis using m(1) by simp
qed

text \<open>A value of the format rounds to itself.\<close>

lemma rnd_exact:
  assumes N: "\<bar>N\<bar> < 2 ^ prec f" and k: "emin f - (int (prec f) - 1) \<le> k"
    and fin: "\<bar>of_int N * 2 powr of_int k :: real\<bar> < 2 powr of_int (ebound f)"
  shows "rnd f (of_int N * 2 powr of_int k) = Fin (of_int N * 2 powr of_int k)"
proof (cases "N = 0")
  case True
  then show ?thesis by simp
next
  case False
  let ?x = "of_int N * 2 powr of_int k :: real"
  have ax: "\<bar>?x\<bar> = of_int \<bar>N\<bar> * 2 powr of_int k" by (simp add: abs_mult)
  have a: "0 < \<bar>?x\<bar>" using False by simp
  let ?q = "2 powr of_int (ulp_exp f \<bar>?x\<bar>) :: real"
  have q: "0 < ?q" by simp
  have le: "\<bar>?x\<bar> \<le> of_int \<bar>N\<bar> * 2 powr of_int k" using ax by simp
  from quotient_integer[OF a le N k] obtain Y where
    Y: "of_int \<bar>N\<bar> * 2 powr of_int k / ?q = of_int Y" by blast
  have xq: "\<bar>?x\<bar> / ?q = of_int Y" using Y by (simp add: ax)
  then have "rne (\<bar>?x\<bar> / ?q) = Y" by (simp only: rne_of_int)
  then have "of_int (rne (\<bar>?x\<bar> / ?q)) * ?q = of_int Y * ?q" by simp
  also have "\<dots> = \<bar>?x\<bar>" using xq q by (simp add: field_simps)
  finally have m: "of_int (rne (\<bar>?x\<bar> / ?q)) * ?q = \<bar>?x\<bar>" .
  have nz: "?x \<noteq> 0" using False by simp
  have "rnd f ?x = Fin (sgn ?x * \<bar>?x\<bar>)"
    using nz fin unfolding rnd_def Let_def m by simp
  also have "sgn ?x * \<bar>?x\<bar> = ?x" by (simp add: sgn_mult_abs)
  finally show ?thesis .
qed

text \<open>A magnitude of \<open>2 ^ ebound\<close> or more rounds to an infinity.\<close>

lemma rnd_overflow:
  assumes x: "2 powr of_int (ebound f) \<le> \<bar>x\<bar>" and e: "emin f \<le> ebound f" and p: "1 \<le> prec f"
  shows "rnd f x = inf_of_sign x"
proof -
  have "(0::real) < 2 powr of_int (ebound f)" by simp
  with x have a: "0 < \<bar>x\<bar>" by linarith
  then have nz: "x \<noteq> 0" by simp
  define e' where "e' = \<lfloor>log 2 \<bar>x\<bar>\<rfloor>"
  have "of_int (ebound f) \<le> log 2 \<bar>x\<bar>" using x a by (simp add: le_log_iff)
  then have eb: "ebound f \<le> e'" by (simp add: e'_def le_floor_iff)
  then have u: "ulp_exp f \<bar>x\<bar> = e' - (int (prec f) - 1)"
    using e by (simp add: ulp_exp_def e'_def)
  let ?q = "2 powr of_int (ulp_exp f \<bar>x\<bar>) :: real"
  have q: "0 < ?q" by simp
  have "of_int e' \<le> log 2 \<bar>x\<bar>" by (simp add: e'_def)
  then have lo: "2 powr of_int e' \<le> \<bar>x\<bar>" using a by (simp add: le_log_iff)
  have ule: "ulp_exp f \<bar>x\<bar> \<le> e'" using p by (simp add: u)
  have "of_int (2 ^ nat (e' - ulp_exp f \<bar>x\<bar>)) = 2 powr of_int e' / ?q"
    using two_powr_int_diff[OF ule] by simp
  also have "\<dots> \<le> \<bar>x\<bar> / ?q" using lo q by (simp add: divide_right_mono)
  finally have r: "2 ^ nat (e' - ulp_exp f \<bar>x\<bar>) \<le> rne (\<bar>x\<bar> / ?q)" by (rule rne_ge)
  have "(2::real) powr of_int (ebound f) \<le> 2 powr of_int e'" using eb by simp
  also have "\<dots> = of_int (2 ^ nat (e' - ulp_exp f \<bar>x\<bar>)) * ?q"
    using two_powr_int_diff[OF ule] q by (simp add: field_simps)
  also have "\<dots> \<le> of_int (rne (\<bar>x\<bar> / ?q)) * ?q"
  proof (rule mult_right_mono)
    show "(of_int (2 ^ nat (e' - ulp_exp f \<bar>x\<bar>)) :: real) \<le> of_int (rne (\<bar>x\<bar> / ?q))"
      using r by (simp only: of_int_le_iff)
    show "0 \<le> ?q" by simp
  qed
  finally have "2 powr of_int (ebound f) \<le> of_int (rne (\<bar>x\<bar> / ?q)) * ?q" .
  then show ?thesis using nz by (simp add: rnd_def Let_def)
qed

subsection \<open>Values that the examples use\<close>

lemma rnd64_int:
  assumes "\<bar>n\<bar> < 2 ^ 53"
  shows "rnd binary64 (of_int n) = Fin (of_int n)"
proof -
  have "rnd binary64 (of_int n * 2 powr of_int 0) = Fin (of_int n * 2 powr of_int 0)"
  proof (rule rnd_exact)
    show "\<bar>n\<bar> < 2 ^ prec binary64" using assms by (simp add: binary64_def)
    show "emin binary64 - (int (prec binary64) - 1) \<le> 0" by (simp add: binary64_def)
    have "\<bar>real_of_int n\<bar> < 2 ^ 53"
      using assms by (metis of_int_abs of_int_less_iff of_int_numeral of_int_power)
    also have "(2::real) ^ 53 \<le> 2 ^ 1024" by (rule power_increasing) simp_all
    also have "(2::real) ^ 1024 = 2 powr 1024" using powr_realpow[of 2 1024] by simp
    finally show "\<bar>of_int n * 2 powr of_int 0 :: real\<bar> < 2 powr of_int (ebound binary64)"
      by (simp add: binary64_def)
  qed
  then show ?thesis by simp
qed

lemma rnd64_numeral [simp]:
  "(numeral w :: int) < 2 ^ 53 \<Longrightarrow> rnd binary64 (numeral w) = Fin (numeral w)"
  using rnd64_int[of "numeral w"] by simp

lemma rnd64_neg_numeral [simp]:
  "(numeral w :: int) < 2 ^ 53 \<Longrightarrow> rnd binary64 (- numeral w) = Fin (- numeral w)"
  using rnd64_int[of "- numeral w"] by simp

lemma rnd64_one [simp]: "rnd binary64 1 = Fin 1"
  using rnd64_int[of 1] by simp

lemma rnd64_neg_one [simp]: "rnd binary64 (- 1) = Fin (- 1)"
  using rnd64_int[of "- 1"] by simp

lemma rnd64_half [simp]: "rnd binary64 (1 / 2) = Fin (1 / 2)"
proof -
  have "rnd binary64 (of_int 1 * 2 powr of_int (- 1)) = Fin (of_int 1 * 2 powr of_int (- 1))"
    by (rule rnd_exact) (simp_all add: binary64_def)
  then show ?thesis by (simp add: powr_minus_divide)
qed

lemma rnd64_pow2:
  assumes "n \<le> 1023"
  shows "rnd binary64 (2 ^ n) = Fin (2 ^ n)"
proof -
  have "rnd binary64 (of_int 1 * 2 powr of_int (int n)) = Fin (of_int 1 * 2 powr of_int (int n))"
  proof (rule rnd_exact)
    show "\<bar>1\<bar> < (2::int) ^ prec binary64" by (simp add: binary64_def)
    show "emin binary64 - (int (prec binary64) - 1) \<le> int n" by (simp add: binary64_def)
    have e: "ebound binary64 = 1024" by (simp add: binary64_def)
    have a: "\<bar>of_int 1 * 2 powr of_int (int n) :: real\<bar> = 2 powr of_int (int n)" by simp
    have "(2::real) powr of_int (int n) < 2 powr of_int 1024"
      by (rule powr_less_mono) (use assms in simp_all)
    then show "\<bar>of_int 1 * 2 powr of_int (int n) :: real\<bar> < 2 powr of_int (ebound binary64)"
      unfolding e a .
  qed
  then show ?thesis by (simp add: powr_realpow)
qed

lemma rnd64_overflow:
  assumes "2 ^ 1024 \<le> x"
  shows "rnd binary64 x = PInf"
proof -
  have p: "(2::real) powr 1024 = 2 ^ 1024" using powr_realpow[of 2 1024] by simp
  have "(0::real) < 2 ^ 1024" by simp
  with assms have x: "0 < x" by linarith
  then have "2 powr of_int (ebound binary64) \<le> \<bar>x\<bar>"
    using assms p by (simp add: binary64_def)
  then have "rnd binary64 x = inf_of_sign x"
    by (rule rnd_overflow) (simp_all add: binary64_def)
  then show ?thesis using x by simp
qed

lemma rnd32_pow2:
  assumes "n \<le> 127"
  shows "rnd binary32 (2 ^ n) = Fin (2 ^ n)"
proof -
  have "rnd binary32 (of_int 1 * 2 powr of_int (int n)) = Fin (of_int 1 * 2 powr of_int (int n))"
  proof (rule rnd_exact)
    show "\<bar>1\<bar> < (2::int) ^ prec binary32" by (simp add: binary32_def)
    show "emin binary32 - (int (prec binary32) - 1) \<le> int n" by (simp add: binary32_def)
    have e: "ebound binary32 = 128" by (simp add: binary32_def)
    have a: "\<bar>of_int 1 * 2 powr of_int (int n) :: real\<bar> = 2 powr of_int (int n)" by simp
    have "(2::real) powr of_int (int n) < 2 powr of_int 128"
      by (rule powr_less_mono) (use assms in simp_all)
    then show "\<bar>of_int 1 * 2 powr of_int (int n) :: real\<bar> < 2 powr of_int (ebound binary32)"
      unfolding e a .
  qed
  then show ?thesis by (simp add: powr_realpow)
qed

lemma rnd32_overflow:
  assumes "2 ^ 128 \<le> x"
  shows "rnd binary32 x = PInf"
proof -
  have p: "(2::real) powr 128 = 2 ^ 128" using powr_realpow[of 2 128] by simp
  have "(0::real) < 2 ^ 128" by simp
  with assms have x: "0 < x" by linarith
  then have "2 powr of_int (ebound binary32) \<le> \<bar>x\<bar>"
    using assms p by (simp add: binary32_def)
  then have "rnd binary32 x = inf_of_sign x"
    by (rule rnd_overflow) (simp_all add: binary32_def)
  then show ?thesis using x by simp
qed

lemma rnd32_int:
  assumes "\<bar>n\<bar> < 2 ^ 24"
  shows "rnd binary32 (of_int n) = Fin (of_int n)"
proof -
  have "rnd binary32 (of_int n * 2 powr of_int 0) = Fin (of_int n * 2 powr of_int 0)"
  proof (rule rnd_exact)
    show "\<bar>n\<bar> < 2 ^ prec binary32" using assms by (simp add: binary32_def)
    show "emin binary32 - (int (prec binary32) - 1) \<le> 0" by (simp add: binary32_def)
    have "\<bar>real_of_int n\<bar> < 2 ^ 24"
      using assms by (metis of_int_abs of_int_less_iff of_int_numeral of_int_power)
    also have "(2::real) ^ 24 \<le> 2 ^ 128" by (rule power_increasing) simp_all
    also have "(2::real) ^ 128 = 2 powr 128" using powr_realpow[of 2 128] by simp
    finally show "\<bar>of_int n * 2 powr of_int 0 :: real\<bar> < 2 powr of_int (ebound binary32)"
      by (simp add: binary32_def)
  qed
  then show ?thesis by simp
qed

section \<open>Properties of the similarity ranker\<close>

subsection \<open>Sorting indices\<close>

lemma argsort_length: "length (argsort ks) = length ks"
  by (simp add: argsort_def)

lemma zip_upt_snd: "map snd (zip ks [0..<length ks]) = [0..<length ks]"
  by (simp add: map_snd_zip)

lemma argsort_set: "set (argsort ks) = {0..<length ks}"
proof -
  have "set (argsort ks) = snd ` set (zip ks [0..<length ks])"
    by (simp add: argsort_def)
  also have "\<dots> = set (map snd (zip ks [0..<length ks]))"
    by (simp only: set_map)
  also have "\<dots> = {0..<length ks}"
    by (simp only: zip_upt_snd set_upt)
  finally show ?thesis .
qed

lemma argsort_distinct: "distinct (argsort ks)"
proof -
  have "distinct (map snd (zip ks [0..<length ks]))"
    by (simp only: zip_upt_snd distinct_upt)
  then have "distinct (zip ks [0..<length ks]) \<and> inj_on snd (set (zip ks [0..<length ks]))"
    by (simp only: distinct_map)
  then show ?thesis
    by (simp add: argsort_def distinct_map)
qed

lemma zip_upt_fst: "p \<in> set (zip ks [0..<length ks]) \<Longrightarrow> ks ! snd p = fst p"
  by (auto simp: set_zip)

lemma argsort_keys: "map (\<lambda>i. ks ! i) (argsort ks) = map fst (sort_key fst (zip ks [0..<length ks]))"
  unfolding argsort_def map_map
  by (rule map_cong[OF refl]) (simp add: zip_upt_fst)

lemma argsort_sorted: "sorted (map (\<lambda>i. ks ! i) (argsort ks))"
  unfolding argsort_keys by (rule sorted_sort_key)

lemma argsort_nth_le:
  assumes "a \<le> b" "b < length ks"
  shows "ks ! (argsort ks ! a) \<le> ks ! (argsort ks ! b)"
  using argsort_sorted[of ks] assms
  by (simp add: sorted_iff_nth_mono argsort_length)

lemma argsort_nth_less: "a < length ks \<Longrightarrow> argsort ks ! a < length ks"
  using argsort_set[of ks] argsort_length[of ks] nth_mem[of a "argsort ks"] by auto

subsection \<open>Cosine similarity of real vectors\<close>

lemma rdot_self_nonneg: "0 \<le> rdot u u"
  unfolding rdot_def by (induction u) simp_all

lemma am_gm_aux:
  fixes t p q :: real
  assumes "t\<^sup>2 \<le> p * q" "0 \<le> p" "0 \<le> q"
  shows "2 * t \<le> p + q"
proof -
  have "(2 * t)\<^sup>2 = 4 * t\<^sup>2" by (simp add: power2_eq_square)
  also have "\<dots> \<le> 4 * (p * q)" using assms(1) by simp
  also have "\<dots> \<le> (p + q)\<^sup>2"
  proof -
    have "0 \<le> (p - q)\<^sup>2" by simp
    then show ?thesis by (simp add: power2_eq_square algebra_simps)
  qed
  finally have "(2 * t)\<^sup>2 \<le> (p + q)\<^sup>2" .
  moreover have "0 \<le> p + q" using assms(2,3) by simp
  ultimately show ?thesis by (rule power2_le_imp_le)
qed

lemma cauchy_schwarz_list: "(rdot u w)\<^sup>2 \<le> rdot u u * rdot w w"
proof (induction u arbitrary: w)
  case Nil
  then show ?case by (simp add: rdot_def)
next
  case (Cons x u)
  show ?case
  proof (cases w)
    case Nil
    then show ?thesis by (simp add: rdot_def)
  next
    case (Cons y w')
    define S where "S = rdot u w'"
    define A where "A = rdot u u"
    define B where "B = rdot w' w'"
    have ih: "S\<^sup>2 \<le> A * B" unfolding S_def A_def B_def by (rule Cons.IH)
    have A: "0 \<le> A" and B: "0 \<le> B" unfolding A_def B_def by (rule rdot_self_nonneg)+
    have "(x * y * S)\<^sup>2 = (x\<^sup>2 * y\<^sup>2) * S\<^sup>2" by (simp add: power_mult_distrib)
    also have "\<dots> \<le> (x\<^sup>2 * y\<^sup>2) * (A * B)" using ih by (simp add: mult_left_mono)
    also have "\<dots> = (x\<^sup>2 * B) * (y\<^sup>2 * A)" by simp
    finally have "2 * (x * y * S) \<le> x\<^sup>2 * B + y\<^sup>2 * A"
      using A B by (intro am_gm_aux) simp_all
    then have "(x * y + S)\<^sup>2 \<le> (x\<^sup>2 + A) * (y\<^sup>2 + B)"
      using ih by (simp add: power2_eq_square algebra_simps)
    then show ?thesis using Cons
      by (simp add: rdot_def S_def A_def B_def power2_eq_square)
  qed
qed

lemma cosine_le_one:
  assumes "rdot u u \<noteq> 0" "rdot w w \<noteq> 0"
  shows "cosine_similarity u w \<le> 1"
proof -
  have pu: "0 < rdot u u" and pw: "0 < rdot w w"
    using assms rdot_self_nonneg[of u] rdot_self_nonneg[of w] by simp_all
  have "rdot u w \<le> sqrt (rdot u u * rdot w w)"
    by (rule real_le_rsqrt) (rule cauchy_schwarz_list)
  also have "\<dots> = sqrt (rdot u u) * sqrt (rdot w w)" by (rule real_sqrt_mult)
  finally show ?thesis using pu pw
    by (simp add: cosine_similarity_def)
qed

lemma cosine_self:
  assumes "rdot u u \<noteq> 0"
  shows "cosine_similarity u u = 1"
proof -
  have "sqrt (rdot u u) * sqrt (rdot u u) = rdot u u"
    using rdot_self_nonneg[of u] by simp
  then show ?thesis using assms unfolding cosine_similarity_def by simp
qed

subsection \<open>The order of the result\<close>

lemma ranked_before_rank:
  "ranked_before x y \<longleftrightarrow> sort_rank (np_neg x) \<le> sort_rank (np_neg y)"
  by (cases x; cases y) (simp_all add: ranked_before_def np_le_def)

lemma ranked_before_no_nan:
  "\<not> np_isnan x \<Longrightarrow> \<not> np_isnan y \<Longrightarrow> ranked_before x y \<longleftrightarrow> np_le y x"
  by (simp add: ranked_before_def)

lemma np_argsort_facts:
  shows np_argsort_length: "length (np_argsort xs) = length xs"
    and np_argsort_set: "set (np_argsort xs) = {0..<length xs}"
    and np_argsort_distinct: "distinct (np_argsort xs)"
  by (simp_all add: np_argsort_def argsort_length argsort_set argsort_distinct)

lemma np_argsort_ranked:
  assumes "a \<le> b" "b < length sim"
  shows "ranked_before (sim ! (np_argsort (map np_neg sim) ! a))
                       (sim ! (np_argsort (map np_neg sim) ! b))"
proof -
  let ?ks = "map sort_rank (map np_neg sim)"
  have la: "argsort ?ks ! a < length sim" and lb: "argsort ?ks ! b < length sim"
    using assms argsort_nth_less[of _ ?ks] by simp_all
  have "?ks ! (argsort ?ks ! a) \<le> ?ks ! (argsort ?ks ! b)"
    using assms by (intro argsort_nth_le) simp_all
  then show ?thesis using la lb by (simp add: np_argsort_def ranked_before_rank)
qed

text \<open>The first \<open>m\<close> indices of the sorted order, as identifiers that start at 1.\<close>

lemma ranked_take:
  fixes sim :: "npfloat list" and m :: nat
  defines "res \<equiv> map (\<lambda>i. int i + 1) (take m (np_argsort (map np_neg sim)))"
  shows "length res = min m (length sim)"
    and "distinct res"
    and "\<forall>i \<in> set res. 1 \<le> i \<and> i \<le> int (length sim)"
    and "sorted_wrt (\<lambda>a b. ranked_before (sim ! nat (a - 1)) (sim ! nat (b - 1))) res"
    and "\<forall>j. 1 \<le> j \<and> j \<le> int (length sim) \<and> j \<notin> set res \<longrightarrow>
           (\<forall>i \<in> set res. ranked_before (sim ! nat (i - 1)) (sim ! nat (j - 1)))"
proof -
  define perm where "perm = np_argsort (map np_neg sim)"
  have res: "res = map (\<lambda>i. int i + 1) (take m perm)" by (simp add: res_def perm_def)
  have len: "length perm = length sim" by (simp add: perm_def np_argsort_length)
  have set_perm: "set perm = {0..<length sim}" by (simp add: perm_def np_argsort_set)
  have dist: "distinct perm" by (simp add: perm_def np_argsort_distinct)
  have ord: "ranked_before (sim ! (perm ! a)) (sim ! (perm ! b))"
    if "a \<le> b" "b < length sim" for a b
    unfolding perm_def using that by (rule np_argsort_ranked)
  show "length res = min m (length sim)" by (simp add: res len)
  show "distinct res" using dist by (simp add: res distinct_map inj_on_def)
  show "\<forall>i \<in> set res. 1 \<le> i \<and> i \<le> int (length sim)"
  proof
    fix i assume "i \<in> set res"
    then obtain p where "p \<in> set (take m perm)" "i = int p + 1" by (auto simp: res)
    moreover from this have "p \<in> set perm" by (auto dest: in_set_takeD)
    ultimately show "1 \<le> i \<and> i \<le> int (length sim)" using set_perm by auto
  qed
  show "sorted_wrt (\<lambda>a b. ranked_before (sim ! nat (a - 1)) (sim ! nat (b - 1))) res"
    unfolding res sorted_wrt_map
  proof (subst sorted_wrt_iff_nth_less, intro allI impI)
    fix a b assume "a < b" "b < length (take m perm)"
    then have "a \<le> b" "b < length sim" "a < m" "b < m" using len by simp_all
    then show "ranked_before (sim ! nat (int (take m perm ! a) + 1 - 1))
                             (sim ! nat (int (take m perm ! b) + 1 - 1))"
      using ord[of a b] by simp
  qed
  show "\<forall>j. 1 \<le> j \<and> j \<le> int (length sim) \<and> j \<notin> set res \<longrightarrow>
           (\<forall>i \<in> set res. ranked_before (sim ! nat (i - 1)) (sim ! nat (j - 1)))"
  proof (intro allI impI ballI)
    fix j i assume j: "1 \<le> j \<and> j \<le> int (length sim) \<and> j \<notin> set res" and i: "i \<in> set res"
    define p where "p = nat (j - 1)"
    have pj: "j = int p + 1" and pn: "p < length sim" using j by (auto simp: p_def)
    from pn set_perm have "p \<in> set perm" by simp
    then obtain b where b: "b < length perm" "perm ! b = p" by (auto simp: in_set_conv_nth)
    have "\<not> b < m"
    proof
      assume "b < m"
      then have "p \<in> set (take m perm)" using b by (auto simp: in_set_conv_nth)
      then have "j \<in> set res" by (simp add: res pj)
      with j show False by simp
    qed
    from i obtain a where a: "a < m" "a < length perm" "i = int (perm ! a) + 1"
      by (auto simp: res in_set_conv_nth)
    have "ranked_before (sim ! (perm ! a)) (sim ! (perm ! b))"
      using a \<open>\<not> b < m\<close> b len by (intro ord) simp_all
    then show "ranked_before (sim ! nat (i - 1)) (sim ! nat (j - 1))"
      by (simp add: pj a(3) b(2))
  qed
qed

subsection \<open>The similarities\<close>

lemma np_index_nat:
  assumes "i < length xs"
  shows "np_index xs (int i) = Inr (xs ! i)"
  using assms by (simp add: np_index_def)

lemma length_magnitude: "length (magnitude D) = length D"
  by (simp add: magnitude_def einsum_ij_ij_i_def)

lemma magnitude_nth: "j < length D \<Longrightarrow> magnitude D ! j = np_sqrt (vdot (D ! j) (D ! j))"
  by (simp add: magnitude_def einsum_ij_ij_i_def)

lemma similarity_valid:
  assumes "i < length D"
  shows "\<exists>sim. similarity D (int i) = Inr sim \<and> length sim = length D
           \<and> (\<forall>j < length D. sim ! j = np_div (vdot (D ! i) (D ! j))
                                              (np_mul (magnitude D ! i) (magnitude D ! j)))"
  using assms
  by (simp add: similarity_def np_index_nat length_magnitude)

lemma top_cosine_similarity_run:
  assumes "similarity D (movie_id - 1) = Inr sim" and "0 \<le> top_n"
  shows "top_cosine_similarity D movie_id top_n
           = Inr (map (\<lambda>i. int i + 1) (take (nat top_n) (np_argsort (map np_neg sim))))"
  using assms by (simp add: top_cosine_similarity_def slice_to_def take_map)

subsection \<open>Rows of zeros and zero magnitudes\<close>

lemma np_mul_zero_right: "np_mul m (Fin 0) = Fin 0 \<or> np_mul m (Fin 0) = NaN"
  by (cases m) (simp_all add: np_mul_def)

lemma np_mul_zero_left: "np_mul (Fin 0) m = Fin 0 \<or> np_mul (Fin 0) m = NaN"
  by (cases m) (simp_all add: np_mul_def)

lemma np_div_zero_divisor:
  assumes "d = Fin 0 \<or> d = NaN"
  shows "\<not> np_isfinite (np_div x d)"
  using assms by (cases x) (auto simp: np_div_def split: if_splits)

lemma np_div_zero_nan:
  assumes "n = Fin 0 \<or> n = NaN" and "d = Fin 0 \<or> d = NaN"
  shows "np_div n d = NaN"
  using assms by (auto simp: np_div_def)

lemma np_add_zero_nan:
  assumes "a = Fin 0 \<or> a = NaN" and "b = Fin 0 \<or> b = NaN"
  shows "np_add a b = Fin 0 \<or> np_add a b = NaN"
  using assms by (auto simp: np_add_def)

lemma foldl_zero_nan:
  assumes "a = Fin 0 \<or> a = NaN" and "\<forall>x \<in> set xs. x = Fin 0 \<or> x = NaN"
  shows "foldl np_add a xs = Fin 0 \<or> foldl np_add a xs = NaN"
  using assms
proof (induction xs arbitrary: a)
  case Nil
  then show ?case by simp
next
  case (Cons x xs)
  have "np_add a x = Fin 0 \<or> np_add a x = NaN"
    using Cons.prems by (intro np_add_zero_nan) simp_all
  then show ?case using Cons.IH[of "np_add a x"] Cons.prems by simp
qed

lemma vdot_zero_row:
  assumes "zero_row u \<or> zero_row w"
  shows "vdot u w = Fin 0 \<or> vdot u w = NaN"
proof -
  have "\<forall>x \<in> set (map2 np_mul u w). x = Fin 0 \<or> x = NaN"
  proof
    fix x assume "x \<in> set (map2 np_mul u w)"
    then obtain a b where ab: "(a, b) \<in> set (zip u w)" "x = np_mul a b" by auto
    then have "a \<in> set u" "b \<in> set w" by (auto dest: set_zip_leftD set_zip_rightD)
    with assms have "a = Fin 0 \<or> b = Fin 0" unfolding zero_row_def by blast
    then show "x = Fin 0 \<or> x = NaN"
      using ab(2) np_mul_zero_left[of b] np_mul_zero_right[of a] by auto
  qed
  then show ?thesis unfolding vdot_def np_sum_def by (intro foldl_zero_nan) simp_all
qed

lemma foldl_zero:
  assumes "\<forall>x \<in> set xs. x = Fin 0"
  shows "foldl np_add (Fin 0) xs = Fin 0"
  using assms by (induction xs) (simp_all add: np_add_def)

lemma magnitude_zero_row:
  assumes "j < length D" and "zero_row (D ! j)"
  shows "magnitude D ! j = Fin 0"
proof -
  have "\<forall>x \<in> set (map2 np_mul (D ! j) (D ! j)). x = Fin 0"
  proof
    fix x assume "x \<in> set (map2 np_mul (D ! j) (D ! j))"
    then obtain a b where ab: "(a, b) \<in> set (zip (D ! j) (D ! j))" "x = np_mul a b" by auto
    then have "a \<in> set (D ! j)" "b \<in> set (D ! j)" by (auto dest: set_zip_leftD set_zip_rightD)
    with assms(2) have "a = Fin 0" "b = Fin 0" unfolding zero_row_def by blast+
    then show "x = Fin 0" using ab(2) by (simp add: np_mul_def)
  qed
  then have "vdot (D ! j) (D ! j) = Fin 0"
    unfolding vdot_def np_sum_def by (rule foldl_zero)
  then show ?thesis using assms(1) by (simp add: magnitude_nth np_sqrt_def)
qed

text \<open>
  C1, as amended. For every array, every valid query identifier and every \<open>top_n \<ge> 0\<close> the
  ranker does not raise. The similarity of a row of zero magnitude, and of every row when
  the query row has zero magnitude, is never a finite number, so never \<open>0\<close>: it is NaN when
  the row, or the query row, is a row of zeros. The result is the top of the ranking:
  \<open>min top_n rows\<close> distinct row identifiers in descending order of the computed
  similarity, with the rows of similarity NaN after all others, and no row left out comes
  before a row returned.
\<close>

theorem zero_magnitude_similarity_nan:
  assumes id: "1 \<le> movie_id" "movie_id \<le> int (length D)"
    and N: "0 \<le> top_n"
  shows "\<exists>sim res. similarity D (movie_id - 1) = Inr sim
      \<and> top_cosine_similarity D movie_id top_n = Inr res
      \<and> length sim = length D
      \<and> (\<forall>j < length D. magnitude D ! j = Fin 0 \<or> magnitude D ! nat (movie_id - 1) = Fin 0
             \<longrightarrow> \<not> np_isfinite (sim ! j))
      \<and> (\<forall>j < length D. zero_row (D ! j) \<or> zero_row (D ! nat (movie_id - 1))
             \<longrightarrow> sim ! j = NaN)
      \<and> length res = min (nat top_n) (length D) \<and> distinct res
      \<and> (\<forall>i \<in> set res. 1 \<le> i \<and> i \<le> int (length D))
      \<and> sorted_wrt (\<lambda>a b. ranked_before (sim ! nat (a - 1)) (sim ! nat (b - 1))) res
      \<and> (\<forall>j. 1 \<le> j \<and> j \<le> int (length D) \<and> j \<notin> set res \<longrightarrow>
            (\<forall>i \<in> set res. ranked_before (sim ! nat (i - 1)) (sim ! nat (j - 1))))"
proof -
  define i0 where "i0 = nat (movie_id - 1)"
  have i0: "i0 < length D" and e: "int i0 = movie_id - 1" using id by (simp_all add: i0_def)
  from similarity_valid[OF i0] obtain sim where
    s: "similarity D (movie_id - 1) = Inr sim" and l: "length sim = length D"
    and v: "\<forall>j < length D. sim ! j = np_div (vdot (D ! i0) (D ! j))
                                           (np_mul (magnitude D ! i0) (magnitude D ! j))"
    unfolding e by blast
  define res where "res = map (\<lambda>i. int i + 1) (take (nat top_n) (np_argsort (map np_neg sim)))"
  have run: "top_cosine_similarity D movie_id top_n = Inr res"
    unfolding res_def using s N by (rule top_cosine_similarity_run)
  have z: "\<forall>j < length D. magnitude D ! j = Fin 0 \<or> magnitude D ! nat (movie_id - 1) = Fin 0
             \<longrightarrow> \<not> np_isfinite (sim ! j)"
  proof (intro allI impI)
    fix j assume j: "j < length D"
      and "magnitude D ! j = Fin 0 \<or> magnitude D ! nat (movie_id - 1) = Fin 0"
    then have "np_mul (magnitude D ! i0) (magnitude D ! j) = Fin 0
                 \<or> np_mul (magnitude D ! i0) (magnitude D ! j) = NaN"
      using np_mul_zero_left[of "magnitude D ! j"] np_mul_zero_right[of "magnitude D ! i0"]
      by (auto simp: i0_def)
    then have "\<not> np_isfinite (np_div (vdot (D ! i0) (D ! j))
                                     (np_mul (magnitude D ! i0) (magnitude D ! j)))"
      by (rule np_div_zero_divisor)
    then show "\<not> np_isfinite (sim ! j)" using v j by simp
  qed
  have zr: "\<forall>j < length D. zero_row (D ! j) \<or> zero_row (D ! nat (movie_id - 1))
             \<longrightarrow> sim ! j = NaN"
  proof (intro allI impI)
    fix j assume j: "j < length D"
      and h: "zero_row (D ! j) \<or> zero_row (D ! nat (movie_id - 1))"
    then have n: "vdot (D ! i0) (D ! j) = Fin 0 \<or> vdot (D ! i0) (D ! j) = NaN"
      by (intro vdot_zero_row) (auto simp: i0_def)
    from h have "magnitude D ! j = Fin 0 \<or> magnitude D ! i0 = Fin 0"
      using magnitude_zero_row[OF j] magnitude_zero_row[OF i0] by (auto simp: i0_def)
    then have "np_mul (magnitude D ! i0) (magnitude D ! j) = Fin 0
                 \<or> np_mul (magnitude D ! i0) (magnitude D ! j) = NaN"
      using np_mul_zero_left[of "magnitude D ! j"] np_mul_zero_right[of "magnitude D ! i0"]
      by auto
    with n have "np_div (vdot (D ! i0) (D ! j))
                        (np_mul (magnitude D ! i0) (magnitude D ! j)) = NaN"
      by (rule np_div_zero_nan)
    then show "sim ! j = NaN" using v j by simp
  qed
  note r = ranked_take[where sim=sim and m="nat top_n", folded res_def, unfolded l]
  from s run l z zr r show ?thesis by blast
qed

text \<open>
  C2, as amended. For every array, every valid query identifier and every \<open>N\<close> with
  \<open>1 \<le> N \<le> rows\<close>, the ranker returns \<open>N\<close> distinct row identifiers; when every computed
  similarity is a number (none is NaN), they are in descending order of the computed
  similarity and no row left out has a higher computed similarity than a row returned.
  The similarity is the float64 value that the code computes. It is the cosine
  similarity only up to rounding and overflow.
\<close>

theorem top_cosine_similarity_ranks:
  assumes id: "1 \<le> movie_id" "movie_id \<le> int (length D)"
    and N: "1 \<le> N" "N \<le> int (length D)"
  shows "\<exists>sim res. similarity D (movie_id - 1) = Inr sim \<and> length sim = length D
      \<and> top_cosine_similarity D movie_id N = Inr res
      \<and> length res = nat N \<and> distinct res
      \<and> (\<forall>i \<in> set res. 1 \<le> i \<and> i \<le> int (length D))
      \<and> ((\<forall>j < length D. \<not> np_isnan (sim ! j)) \<longrightarrow>
            sorted_wrt (\<lambda>a b. np_le (sim ! nat (b - 1)) (sim ! nat (a - 1))) res
          \<and> (\<forall>j. 1 \<le> j \<and> j \<le> int (length D) \<and> j \<notin> set res \<longrightarrow>
                (\<forall>i \<in> set res. np_le (sim ! nat (j - 1)) (sim ! nat (i - 1)))))"
proof -
  define i0 where "i0 = nat (movie_id - 1)"
  have i0: "i0 < length D" and e: "int i0 = movie_id - 1" using id by (simp_all add: i0_def)
  from similarity_valid[OF i0] obtain sim where
    s: "similarity D (movie_id - 1) = Inr sim" and l: "length sim = length D"
    unfolding e by blast
  define res where "res = map (\<lambda>i. int i + 1) (take (nat N) (np_argsort (map np_neg sim)))"
  have run: "top_cosine_similarity D movie_id N = Inr res"
    unfolding res_def using s N(1) by (intro top_cosine_similarity_run) simp_all
  note r = ranked_take[where sim=sim and m="nat N", folded res_def, unfolded l]
  have lr: "length res = nat N" using r(1) N by simp
  have ord: "sorted_wrt (\<lambda>a b. np_le (sim ! nat (b - 1)) (sim ! nat (a - 1))) res
          \<and> (\<forall>j. 1 \<le> j \<and> j \<le> int (length D) \<and> j \<notin> set res \<longrightarrow>
                (\<forall>i \<in> set res. np_le (sim ! nat (j - 1)) (sim ! nat (i - 1))))"
    if nn: "\<forall>j < length D. \<not> np_isnan (sim ! j)"
  proof -
    have num: "\<not> np_isnan (sim ! nat (i - 1))" if "1 \<le> i" "i \<le> int (length D)" for i
      using nn that by auto
    have eq: "ranked_before (sim ! nat (a - 1)) (sim ! nat (b - 1))
                \<longleftrightarrow> np_le (sim ! nat (b - 1)) (sim ! nat (a - 1))"
      if "1 \<le> a" "a \<le> int (length D)" "1 \<le> b" "b \<le> int (length D)" for a b
      using num[OF that(1,2)] num[OF that(3,4)] by (rule ranked_before_no_nan)
    have "sorted_wrt (\<lambda>a b. np_le (sim ! nat (b - 1)) (sim ! nat (a - 1))) res"
      using r(4)
    proof (rule sorted_wrt_mono_rel[rotated])
      fix a b assume "a \<in> set res" "b \<in> set res"
        and "ranked_before (sim ! nat (a - 1)) (sim ! nat (b - 1))"
      then show "np_le (sim ! nat (b - 1)) (sim ! nat (a - 1))"
        using r(3) eq[of a b] by blast
    qed
    moreover have "\<forall>j. 1 \<le> j \<and> j \<le> int (length D) \<and> j \<notin> set res \<longrightarrow>
                (\<forall>i \<in> set res. np_le (sim ! nat (j - 1)) (sim ! nat (i - 1)))"
      using r(3,5) eq by blast
    ultimately show ?thesis by blast
  qed
  from s l run lr r(2,3) ord show ?thesis by blast
qed

text \<open>
  C3, as amended. The cosine similarity of a nonzero real vector with itself is \<open>1\<close> and no
  cosine similarity is larger. The float64 similarity that the code computes need not be
  \<open>1.0\<close> for the query row. For every array, every valid query identifier and every
  \<open>top_n \<ge> 1\<close>, the query identifier is the first element of the returned list whenever
  the computed similarity of the query row with itself comes strictly before that of every
  other row.
\<close>

theorem query_row_first:
  assumes id: "1 \<le> movie_id" "movie_id \<le> int (length D)"
    and t: "1 \<le> top_n"
  shows "\<exists>sim. similarity D (movie_id - 1) = Inr sim \<and> length sim = length D
      \<and> ((\<forall>j < length D. j \<noteq> nat (movie_id - 1)
              \<longrightarrow> \<not> ranked_before (sim ! j) (sim ! nat (movie_id - 1)))
          \<longrightarrow> (\<exists>rest. top_cosine_similarity D movie_id top_n = Inr (movie_id # rest)))
      \<and> (\<forall>u w. rdot u u \<noteq> 0 \<and> rdot w w \<noteq> 0
             \<longrightarrow> cosine_similarity u u = 1 \<and> cosine_similarity u w \<le> 1)"
proof -
  define i0 where "i0 = nat (movie_id - 1)"
  have i0: "i0 < length D" and e: "int i0 = movie_id - 1" using id by (simp_all add: i0_def)
  from similarity_valid[OF i0] obtain sim where
    s: "similarity D (movie_id - 1) = Inr sim" and l: "length sim = length D"
    unfolding e by blast
  define perm where "perm = np_argsort (map np_neg sim)"
  have len: "length perm = length D" by (simp add: perm_def np_argsort_length l)
  have first: "\<exists>rest. top_cosine_similarity D movie_id top_n = Inr (movie_id # rest)"
    if u: "\<forall>j < length D. j \<noteq> nat (movie_id - 1)
              \<longrightarrow> \<not> ranked_before (sim ! j) (sim ! nat (movie_id - 1))"
  proof -
    have "i0 \<in> set perm" using i0 by (simp add: perm_def np_argsort_set l)
    then obtain b where b: "b < length perm" "perm ! b = i0" by (auto simp: in_set_conv_nth)
    have ne: "perm \<noteq> []" using len i0 by auto
    then have "perm ! 0 \<in> set perm" by simp
    then have p0: "perm ! 0 < length D" by (simp add: perm_def np_argsort_set l)
    have "ranked_before (sim ! (perm ! 0)) (sim ! (perm ! b))"
      unfolding perm_def using b len l by (intro np_argsort_ranked) (simp_all add: perm_def)
    then have "ranked_before (sim ! (perm ! 0)) (sim ! nat (movie_id - 1))"
      by (simp add: b(2) i0_def)
    with u p0 have h: "perm ! 0 = i0" unfolding i0_def by blast
    have "take (nat top_n) perm = perm ! 0 # take (nat top_n - 1) (tl perm)"
      using ne t by (cases perm; cases "nat top_n") simp_all
    then have "map (\<lambda>i. int i + 1) (take (nat top_n) perm)
                 = movie_id # map (\<lambda>i. int i + 1) (take (nat top_n - 1) (tl perm))"
      using h e by simp
    moreover have "top_cosine_similarity D movie_id top_n
                     = Inr (map (\<lambda>i. int i + 1) (take (nat top_n) perm))"
      unfolding perm_def using s t by (intro top_cosine_similarity_run) simp_all
    ultimately show ?thesis by simp
  qed
  have math: "\<forall>u w. rdot u u \<noteq> 0 \<and> rdot w w \<noteq> 0
             \<longrightarrow> cosine_similarity u u = 1 \<and> cosine_similarity u w \<le> 1"
    using cosine_self cosine_le_one by blast
  from s l first math show ?thesis by blast
qed

subsection \<open>The ranker on the example arrays\<close>

lemmas ranker_defs =
  top_cosine_similarity_def similarity_def np_index_def magnitude_def einsum_ij_ij_i_def
  vdot_def np_sum_def np_argsort_def argsort_def slice_to_def
  np_add_def np_mul_def np_div_def np_sqrt_def

lemma rnd64_two_700: "rnd binary64 (2 ^ 700) = Fin (2 ^ 700)"
  by (rule rnd64_pow2) simp

text \<open>
  C1 as stated fails: in \<open>ex_zero_row\<close> the second row has zero magnitude, its similarity
  with the first row is NaN and not \<open>0\<close>, and it is ranked after the third row, whose
  similarity is \<open>-1\<close>; with the similarity \<open>0\<close> of the specification it would come before.
\<close>

theorem zero_magnitude_not_zero_counterexample:
  "has_dtype binary64 ex_zero_row
   \<and> magnitude ex_zero_row = [Fin 1, Fin 0, Fin 1]
   \<and> similarity ex_zero_row (1 - 1) = Inr [Fin 1, NaN, Fin (- 1)]
   \<and> top_cosine_similarity ex_zero_row 1 3 = Inr [1, 3, 2]
   \<and> top_cosine_similarity_zero_fallback ex_zero_row 1 3 = Inr [1, 2, 3]"
  by (simp add: ranker_defs top_cosine_similarity_zero_fallback_def nan_to_zero_def ex_zero_row_def
        has_dtype_def is_value_def)

theorem zero_magnitude_similarity_nan_witness:
  "magnitude ex_three = [Fin 2, Fin 0, Fin 2, Fin 2]
   \<and> similarity ex_three (1 - 1) = Inr [Fin 1, NaN, Fin (- 1), Fin (1 / 2)]
   \<and> top_cosine_similarity ex_three 1 3 = Inr [1, 4, 3]
   \<and> (\<exists>sim res. similarity ex_three (1 - 1) = Inr sim
      \<and> top_cosine_similarity ex_three 1 3 = Inr res
      \<and> length sim = length ex_three
      \<and> (\<forall>j < length ex_three.
             magnitude ex_three ! j = Fin 0 \<or> magnitude ex_three ! nat (1 - 1) = Fin 0
             \<longrightarrow> \<not> np_isfinite (sim ! j))
      \<and> (\<forall>j < length ex_three. zero_row (ex_three ! j) \<or> zero_row (ex_three ! nat (1 - 1))
             \<longrightarrow> sim ! j = NaN)
      \<and> length res = min (nat 3) (length ex_three) \<and> distinct res
      \<and> (\<forall>i \<in> set res. 1 \<le> i \<and> i \<le> int (length ex_three))
      \<and> sorted_wrt (\<lambda>a b. ranked_before (sim ! nat (a - 1)) (sim ! nat (b - 1))) res
      \<and> (\<forall>j. 1 \<le> j \<and> j \<le> int (length ex_three) \<and> j \<notin> set res \<longrightarrow>
            (\<forall>i \<in> set res. ranked_before (sim ! nat (i - 1)) (sim ! nat (j - 1)))))"
proof -
  have m: "magnitude ex_three = [Fin 2, Fin 0, Fin 2, Fin 2]"
    by (simp add: ranker_defs ex_three_def)
  have s: "similarity ex_three (1 - 1) = Inr [Fin 1, NaN, Fin (- 1), Fin (1 / 2)]"
    by (simp add: ranker_defs ex_three_def)
  have v: "top_cosine_similarity ex_three 1 3 = Inr [1, 4, 3]"
    by (simp add: ranker_defs ex_three_def)
  have "(1::int) \<le> 1" "1 \<le> int (length ex_three)" "(0::int) \<le> 3"
    by (simp_all add: ex_three_def)
  from zero_magnitude_similarity_nan[OF this]
  show ?thesis using m s v by (intro conjI)
qed

text \<open>
  C2 as stated fails: the rows of \<open>ex_large_rank\<close> are finite and of nonzero magnitude,
  the first row is parallel to the second and so has cosine similarity \<open>1\<close> with it, and
  the third has cosine similarity \<open>1/2\<close>. The square of \<open>2 ^ 700\<close> is infinite in float64,
  the computed similarity of the first row is \<open>0\<close>, and the ranker called for item 2 with
  \<open>N = 2\<close> returns items 2 and 3.
\<close>

lemma cosine_axis:
  assumes "0 < c"
  shows "cosine_similarity [1, 0, 0, 0] [c, 0, 0, 0] = 1"
  using assms by (simp add: cosine_similarity_def rdot_def)

theorem highest_cosine_left_out_counterexample:
  "has_dtype binary64 ex_large_rank
   \<and> magnitude ex_large_rank = [PInf, Fin 1, Fin 2]
   \<and> similarity ex_large_rank (2 - 1) = Inr [Fin 0, Fin 1, Fin (1 / 2)]
   \<and> top_cosine_similarity ex_large_rank 2 2 = Inr [2, 3]
   \<and> cosine_similarity (item_row ex_large_rank 2) (item_row ex_large_rank 1) = 1
   \<and> cosine_similarity (item_row ex_large_rank 2) (item_row ex_large_rank 3) = 1 / 2"
proof -
  have m: "magnitude ex_large_rank = [PInf, Fin 1, Fin 2]"
    by (simp add: magnitude_def einsum_ij_ij_i_def vdot_def np_sum_def np_add_def np_mul_def
          np_sqrt_def ex_large_rank_def rnd64_overflow)
  have s: "similarity ex_large_rank (2 - 1) = Inr [Fin 0, Fin 1, Fin (1 / 2)]"
    by (simp add: similarity_def np_index_def m)
       (simp add: ex_large_rank_def vdot_def np_sum_def np_add_def np_mul_def np_div_def
          rnd64_two_700[simplified])
  have v: "top_cosine_similarity ex_large_rank 2 2 = Inr [2, 3]"
    by (simp add: top_cosine_similarity_def s[simplified] np_argsort_def argsort_def slice_to_def)
  have c1: "cosine_similarity (item_row ex_large_rank 2) (item_row ex_large_rank 1) = 1"
    using cosine_axis[of "2 ^ 700"] by (simp add: item_row_def ex_large_rank_def)
  have c3: "cosine_similarity (item_row ex_large_rank 2) (item_row ex_large_rank 3) = 1 / 2"
    by (simp add: item_row_def ex_large_rank_def cosine_similarity_def rdot_def)
  have t: "has_dtype binary64 ex_large_rank"
    by (simp add: has_dtype_def is_value_def ex_large_rank_def rnd64_two_700[simplified])
  from t m s v c1 c3 show ?thesis by (intro conjI)
qed

theorem top_cosine_similarity_ranks_witness:
  "similarity ex_rank (1 - 1) = Inr [Fin 1, Fin (- 1), Fin (1 / 2)]
   \<and> list_all (\<lambda>v. \<not> np_isnan v) [Fin 1, Fin (- 1), Fin (1 / 2)]
   \<and> top_cosine_similarity ex_rank 1 2 = Inr [1, 3]
   \<and> (\<exists>sim res. similarity ex_rank (1 - 1) = Inr sim \<and> length sim = length ex_rank
      \<and> top_cosine_similarity ex_rank 1 2 = Inr res
      \<and> length res = nat 2 \<and> distinct res
      \<and> (\<forall>i \<in> set res. 1 \<le> i \<and> i \<le> int (length ex_rank))
      \<and> ((\<forall>j < length ex_rank. \<not> np_isnan (sim ! j)) \<longrightarrow>
            sorted_wrt (\<lambda>a b. np_le (sim ! nat (b - 1)) (sim ! nat (a - 1))) res
          \<and> (\<forall>j. 1 \<le> j \<and> j \<le> int (length ex_rank) \<and> j \<notin> set res \<longrightarrow>
                (\<forall>i \<in> set res. np_le (sim ! nat (j - 1)) (sim ! nat (i - 1))))))"
proof -
  have s: "similarity ex_rank (1 - 1) = Inr [Fin 1, Fin (- 1), Fin (1 / 2)]"
    by (simp add: ranker_defs ex_rank_def)
  have v: "top_cosine_similarity ex_rank 1 2 = Inr [1, 3]"
    by (simp add: ranker_defs ex_rank_def)
  have n: "list_all (\<lambda>v. \<not> np_isnan v) [Fin 1, Fin (- 1), Fin (1 / 2)]" by simp
  have "(1::int) \<le> 1" "1 \<le> int (length ex_rank)" "(1::int) \<le> 2" "2 \<le> int (length ex_rank)"
    by (simp_all add: ex_rank_def)
  from top_cosine_similarity_ranks[OF this]
  show ?thesis using s n v by (intro conjI)
qed

text \<open>
  C3 as stated fails: the rows of \<open>ex_large\<close> are finite and of nonzero magnitude, the
  computed similarity of the first row with itself is NaN (an infinity divided by an
  infinity) and not \<open>1.0\<close>, and the ranker called for item 1 with \<open>top_n = 1\<close> returns item 2
  alone.
\<close>

theorem query_row_missing_counterexample:
  "has_dtype binary64 ex_large \<and> fin_matrix ex_large \<and> magnitude ex_large = [PInf, Fin 1]
   \<and> similarity ex_large (1 - 1) = Inr [NaN, Fin 0]
   \<and> top_cosine_similarity ex_large 1 1 = Inr [2]
   \<and> (1::int) \<notin> set [2]"
proof -
  have f: "fin_matrix ex_large" by (simp add: fin_matrix_def ex_large_def)
  have m: "magnitude ex_large = [PInf, Fin 1]"
    by (simp add: magnitude_def einsum_ij_ij_i_def vdot_def np_sum_def np_add_def np_mul_def
          np_sqrt_def ex_large_def rnd64_overflow)
  have s: "similarity ex_large (1 - 1) = Inr [NaN, Fin 0]"
    by (simp add: similarity_def np_index_def m)
       (simp add: ex_large_def vdot_def np_sum_def np_add_def np_mul_def np_div_def
          rnd64_overflow rnd64_two_700[simplified])
  have v: "top_cosine_similarity ex_large 1 1 = Inr [2]"
    by (simp add: top_cosine_similarity_def s[simplified] np_argsort_def argsort_def slice_to_def)
  have n: "(1::int) \<notin> set [2]" by simp
  have t: "has_dtype binary64 ex_large"
    by (simp add: has_dtype_def is_value_def ex_large_def rnd64_two_700[simplified])
  from t f m s v n show ?thesis by (intro conjI)
qed

theorem query_row_first_witness:
  "similarity ex_rank (1 - 1) = Inr [Fin 1, Fin (- 1), Fin (1 / 2)]
   \<and> \<not> ranked_before (Fin (- 1)) (Fin 1) \<and> \<not> ranked_before (Fin (1 / 2)) (Fin 1)
   \<and> top_cosine_similarity ex_rank 1 1 = Inr [1]
   \<and> (\<exists>sim. similarity ex_rank (1 - 1) = Inr sim \<and> length sim = length ex_rank
      \<and> ((\<forall>j < length ex_rank. j \<noteq> nat (1 - 1)
              \<longrightarrow> \<not> ranked_before (sim ! j) (sim ! nat (1 - 1)))
          \<longrightarrow> (\<exists>rest. top_cosine_similarity ex_rank 1 1 = Inr (1 # rest)))
      \<and> (\<forall>u w. rdot u u \<noteq> 0 \<and> rdot w w \<noteq> 0
             \<longrightarrow> cosine_similarity u u = 1 \<and> cosine_similarity u w \<le> 1))"
proof -
  have s: "similarity ex_rank (1 - 1) = Inr [Fin 1, Fin (- 1), Fin (1 / 2)]"
    by (simp add: ranker_defs ex_rank_def)
  have v: "top_cosine_similarity ex_rank 1 1 = Inr [1]"
    by (simp add: ranker_defs ex_rank_def)
  have n: "\<not> ranked_before (Fin (- 1)) (Fin 1)" "\<not> ranked_before (Fin (1 / 2)) (Fin 1)"
    by (simp_all add: ranked_before_def np_le_def)
  have "(1::int) \<le> 1" "1 \<le> int (length ex_rank)" "(1::int) \<le> 1"
    by (simp_all add: ex_rank_def)
  from query_row_first[OF this]
  show ?thesis using s n v by (intro conjI)
qed

section \<open>Properties of the interpolative decomposition\<close>

lemma argsort_permutation_sorted:
  assumes d: "distinct idx" and s: "set idx = {0..<length idx}"
  shows "map (\<lambda>i. idx ! i) (argsort idx) = [0..<length idx]"
proof (rule sorted_distinct_set_unique)
  show "sorted (map (\<lambda>i. idx ! i) (argsort idx))" by (rule argsort_sorted)
  have "inj_on (\<lambda>i. idx ! i) (set (argsort idx))"
    using d by (auto simp: inj_on_def argsort_set nth_eq_iff_index_eq)
  then show "distinct (map (\<lambda>i. idx ! i) (argsort idx))"
    by (simp add: distinct_map argsort_distinct)
  have "set (map (\<lambda>i. idx ! i) (argsort idx)) = (\<lambda>i. idx ! i) ` {0..<length idx}"
    by (simp add: argsort_set)
  also have "\<dots> = set idx"
    by (auto simp: in_set_conv_nth)
  finally show "set (map (\<lambda>i. idx ! i) (argsort idx)) = set [0..<length idx]"
    using s by simp
qed simp_all

lemma argsort_inverse:
  assumes d: "distinct idx" and s: "set idx = {0..<length idx}" and c: "c < length idx"
  shows "argsort idx ! (idx ! c) = c"
proof -
  have v: "idx ! c < length idx" using s c nth_mem[of c idx] by auto
  then have p: "argsort idx ! (idx ! c) < length idx" by (rule argsort_nth_less)
  have "map (\<lambda>i. idx ! i) (argsort idx) ! (idx ! c) = [0..<length idx] ! (idx ! c)"
    by (simp only: argsort_permutation_sorted[OF d s])
  then have "idx ! (argsort idx ! (idx ! c)) = idx ! c"
    using v by (simp add: argsort_length)
  then show ?thesis using d p c by (simp add: nth_eq_iff_index_eq)
qed

lemma eye_nth: "r < k \<Longrightarrow> c < k \<Longrightarrow> eye k ! r ! c = (if r = c then Fin 1 else Fin 0)"
  by (simp add: eye_def)

lemma eye_shape: "has_shape (eye k) k k"
  by (auto simp: has_shape_def eye_def)

lemma permutation_length:
  assumes "distinct idx" "set idx = {0..<n}"
  shows "length idx = n"
  using assms distinct_card[of idx] by simp

lemma interp_dec_result:
  assumes dec: "decomp A k = Inr (idx, proj)"
    and d: "distinct idx" and s: "set idx = {0..<ncols A}"
    and pr: "has_shape proj k (ncols A - k)" and k: "k \<le> ncols A"
  shows "\<exists>J X. interp_dec decomp A k = Inr (J, X) \<and> length J = k \<and> distinct J
           \<and> set J \<subseteq> {0..<ncols A} \<and> has_shape X k (ncols A) \<and> take_cols X J = Inr (eye k)"
proof -
  define n where "n = ncols A"
  define h where "h = map2 (@) (eye k) proj"
  define X where "X = map (\<lambda>row. map (\<lambda>j. row ! j) (argsort idx)) h"
  define J where "J = take k idx"
  have len: "length idx = n" using d s unfolding n_def by (rule permutation_length)
  have s': "set idx = {0..<length idx}" using s len by (simp add: n_def)
  have lp: "length proj = k" using pr by (simp add: has_shape_def)
  have lh: "length h = k" by (simp add: h_def lp eye_def)
  have hrow: "h ! r = eye k ! r @ proj ! r" if "r < k" for r
    using that lp by (simp add: h_def eye_def)
  have hlen: "length row = n" if "row \<in> set h" for row
  proof -
    from that obtain r where r: "r < k" "row = h ! r" using lh by (auto simp: in_set_conv_nth)
    have "length (proj ! r) = n - k" using pr r lp by (simp add: has_shape_def n_def)
    moreover have "length (eye k ! r) = k" using r by (simp add: eye_def)
    ultimately show ?thesis using r k hrow[of r] by (simp add: n_def)
  qed
  have hs: "hstack (eye k) proj = Inr h" by (simp add: hstack_def h_def lp eye_def)
  have tc: "take_cols h (argsort idx) = Inr X"
    using hlen len by (auto simp: take_cols_def X_def argsort_set)
  have run: "interp_dec decomp A k = Inr (J, X)"
    by (simp add: interp_dec_def dec hs tc J_def)
  have lJ: "length J = k" using k len by (simp add: J_def n_def)
  have dJ: "distinct J" using d by (simp add: J_def)
  have sJ: "set J \<subseteq> {0..<ncols A}" using s set_take_subset[of k idx] by (simp add: J_def)
  have shX: "has_shape X k (ncols A)"
    using lh len by (auto simp: has_shape_def X_def argsort_length n_def)
  have Xlen: "length row = n" if "row \<in> set X" for row
    using that len by (auto simp: X_def argsort_length)
  have in_range: "\<forall>row \<in> set X. \<forall>j \<in> set J. j < length row"
    using Xlen sJ by (auto simp: n_def)
  have "map (\<lambda>row. map (\<lambda>j. row ! j) J) X = eye k"
  proof (rule nth_equalityI)
    show "length (map (\<lambda>row. map (\<lambda>j. row ! j) J) X) = length (eye k)"
      by (simp add: X_def lh eye_def)
  next
    fix r assume "r < length (map (\<lambda>row. map (\<lambda>j. row ! j) J) X)"
    then have r: "r < k" by (simp add: X_def lh)
    have "map (\<lambda>j. X ! r ! j) J = eye k ! r"
    proof (rule nth_equalityI)
      show "length (map (\<lambda>j. X ! r ! j) J) = length (eye k ! r)"
        using r lJ by (simp add: eye_def)
    next
      fix c assume "c < length (map (\<lambda>j. X ! r ! j) J)"
      then have c: "c < k" by (simp add: lJ)
      then have cn: "c < length idx" using k len by (simp add: n_def)
      have Jc: "J ! c = idx ! c" using c by (simp add: J_def)
      have "idx ! c < length idx" using s' cn nth_mem[of c idx] by auto
      then have "X ! r ! (idx ! c) = h ! r ! (argsort idx ! (idx ! c))"
        using r lh by (simp add: X_def argsort_length)
      also have "\<dots> = h ! r ! c" by (simp only: argsort_inverse[OF d s' cn])
      also have "\<dots> = eye k ! r ! c"
        using r c by (simp add: hrow nth_append eye_def)
      finally show "map (\<lambda>j. X ! r ! j) J ! c = eye k ! r ! c"
        using c lJ by (simp add: Jc)
    qed
    then show "map (\<lambda>row. map (\<lambda>j. row ! j) J) X ! r = eye k ! r"
      using r lh by (simp add: X_def)
  qed
  then have tj: "take_cols X J = Inr (eye k)"
    using in_range by (simp add: take_cols_def)
  from run lJ dJ sJ shX tj show ?thesis by blast
qed

lemma interp_dec_other_rows:
  assumes "decomp A k = Inr (idx, proj)" and "length proj \<noteq> k"
  shows "interp_dec decomp A k = Inl ValueError"
  using assms by (simp add: interp_dec_def hstack_def eye_def)

text \<open>
  C4, as amended. Whenever the interpolative decomposition of a matrix \<open>A\<close> with rank
  \<open>k \<le> cols(A)\<close> returns a permutation \<open>idx\<close> of the column indices of \<open>A\<close> and a \<open>k\<close> by
  \<open>cols(A) - k\<close> array of coefficients, \<open>interp_dec\<close> returns an index list \<open>J\<close> of \<open>k\<close>
  distinct entries of \<open>[0, cols(A))\<close> and a \<open>k\<close> by \<open>cols(A)\<close> array \<open>X\<close> whose columns at the
  indices \<open>J\<close> form the \<open>k\<close> by \<open>k\<close> identity. When the array of coefficients does not have
  \<open>k\<close> rows, \<open>interp_dec\<close> raises ValueError.
\<close>

theorem interp_dec_identity_block:
  assumes "decomp A k = Inr (idx, proj)"
    and "distinct idx" and "set idx = {0..<ncols A}" and "k \<le> ncols A"
  shows "(has_shape proj k (ncols A - k) \<longrightarrow>
           (\<exists>J X. interp_dec decomp A k = Inr (J, X) \<and> length J = k \<and> distinct J
              \<and> set J \<subseteq> {0..<ncols A} \<and> has_shape X k (ncols A) \<and> take_cols X J = Inr (eye k)))
       \<and> (length proj \<noteq> k \<longrightarrow> interp_dec decomp A k = Inl ValueError)"
  using assms interp_dec_result[of decomp A k idx proj] interp_dec_other_rows[of decomp A k idx proj]
  by blast

theorem interp_dec_identity_block_witness:
  "ex_decomp ex_wide 2 = Inr ([2, 0, 1], [[Fin (1 / 2)], [Fin (1 / 2)]])
   \<and> ncols ex_wide = 3
   \<and> has_shape [[Fin (1 / 2)], [Fin (1 / 2)]] 2 (ncols ex_wide - 2)
   \<and> interp_dec ex_decomp ex_wide 2
       = Inr ([2, 0], [[Fin 0, Fin (1 / 2), Fin 1], [Fin 1, Fin (1 / 2), Fin 0]])
   \<and> (\<exists>J X. interp_dec ex_decomp ex_wide 2 = Inr (J, X) \<and> length J = 2 \<and> distinct J
           \<and> set J \<subseteq> {0..<ncols ex_wide} \<and> has_shape X 2 (ncols ex_wide)
           \<and> take_cols X J = Inr (eye 2))"
proof -
  have n: "ncols ex_wide = 3" by (simp add: ncols_def ex_wide_def)
  have e: "ex_decomp ex_wide 2 = Inr ([2, 0, 1], [[Fin (1 / 2)], [Fin (1 / 2)]])"
    by (simp add: ex_decomp_def)
  have v: "interp_dec ex_decomp ex_wide 2
       = Inr ([2, 0], [[Fin 0, Fin (1 / 2), Fin 1], [Fin 1, Fin (1 / 2), Fin 0]])"
    by (simp add: interp_dec_def ex_decomp_def hstack_def take_cols_def eye_def argsort_def
         upt_rec numeral_2_eq_2)
  have p: "has_shape [[Fin (1 / 2)], [Fin (1 / 2)]] 2 (ncols ex_wide - 2)"
    by (simp add: n has_shape_def)
  have "distinct [2, 0, 1::nat]" "set [2, 0, 1::nat] = {0..<ncols ex_wide}" "2 \<le> ncols ex_wide"
    by (auto simp: n)
  from interp_dec_identity_block[of ex_decomp ex_wide 2 "[2, 0, 1]" "[[Fin (1 / 2)], [Fin (1 / 2)]]",
      OF e this] p
  have "\<exists>J X. interp_dec ex_decomp ex_wide 2 = Inr (J, X) \<and> length J = 2 \<and> distinct J
           \<and> set J \<subseteq> {0..<ncols ex_wide} \<and> has_shape X 2 (ncols ex_wide)
           \<and> take_cols X J = Inr (eye 2)"
    by blast
  then show ?thesis using e n p v by (intro conjI)
qed

text \<open>
  C4 as stated fails: \<open>ex_one_row\<close> has one row and three columns, the rank \<open>2\<close> is at most
  the number of columns, and the decomposition returns a permutation of the column
  indices; its coefficients have one row where \<open>np.eye(2)\<close> has two, and \<open>interp_dec\<close>
  raises ValueError.
\<close>

theorem interp_dec_raises_counterexample:
  "ex_decomp_one_row ex_one_row 2 = Inr ([2, 0, 1], [[Fin (1 / 2)]])
   \<and> ncols ex_one_row = 3 \<and> distinct [2, 0, 1 :: nat] \<and> set [2, 0, 1 :: nat] = {0..<3}
   \<and> interp_dec ex_decomp_one_row ex_one_row 2 = Inl ValueError"
proof -
  have e: "ex_decomp_one_row ex_one_row 2 = Inr ([2, 0, 1], [[Fin (1 / 2)]])"
    by (simp add: ex_decomp_one_row_def)
  have n: "ncols ex_one_row = 3" by (simp add: ncols_def ex_one_row_def)
  have d: "distinct [2, 0, 1 :: nat]" by simp
  have s: "set [2, 0, 1 :: nat] = {0..<3}" by auto
  have v: "interp_dec ex_decomp_one_row ex_one_row 2 = Inl ValueError"
    by (simp add: interp_dec_def ex_decomp_one_row_def hstack_def eye_def)
  from e n d s v show ?thesis by (intro conjI)
qed

section \<open>Properties of the SVD assembler\<close>















section \<open>Properties of the demeaning\<close>

lemma rnd32_numeral [simp]:
  "(numeral w :: int) < 2 ^ 24 \<Longrightarrow> rnd binary32 (numeral w) = Fin (numeral w)"
  using rnd32_int[of "numeral w"] by simp

lemma rnd32_neg_numeral [simp]:
  "(numeral w :: int) < 2 ^ 24 \<Longrightarrow> rnd binary32 (- numeral w) = Fin (- numeral w)"
  using rnd32_int[of "- numeral w"] by simp

lemma rnd32_one [simp]: "rnd binary32 1 = Fin 1"
  using rnd32_int[of 1] by simp

lemma rnd32_neg_one [simp]: "rnd binary32 (- 1) = Fin (- 1)"
  using rnd32_int[of "- 1"] by simp

text \<open>Bounds of the form \<open>N * 2 ^ k\<close> with natural numbers \<open>N\<close> and \<open>k\<close>.\<close>

lemma rnd_bound_nat:
  assumes le: "\<bar>x\<bar> \<le> real N * 2 ^ k"
    and N: "N < 2 ^ prec f" and e: "emin f - (int (prec f) - 1) \<le> 0"
    and fin: "real N * 2 ^ k < 2 ^ nat (ebound f)" and eb: "0 \<le> ebound f"
  shows "\<exists>z. rnd f x = Fin z \<and> \<bar>z\<bar> \<le> real N * 2 ^ k"
proof -
  have c: "real N * 2 ^ k = of_int (int N) * 2 powr of_int (int k)"
    by (simp add: powr_realpow)
  have b: "(2::real) ^ nat (ebound f) = 2 powr of_int (ebound f)"
    using eb by (simp add: powr_realpow[symmetric])
  have "int N < 2 ^ prec f" using N by (metis of_nat_less_iff of_nat_numeral of_nat_power)
  moreover have "emin f - (int (prec f) - 1) \<le> int k" using e by simp
  ultimately show ?thesis
    using rnd_bound[of x "int N" "int k" f] le fin unfolding c b by blast
qed

lemma rnd32_bound:
  assumes "\<bar>x\<bar> \<le> real N * 2 ^ k" "N < 2 ^ 24" "real N * 2 ^ k < 2 ^ 128"
  shows "\<exists>z. rnd binary32 x = Fin z \<and> \<bar>z\<bar> \<le> real N * 2 ^ k"
  using assms by (intro rnd_bound_nat) (simp_all add: binary32_def)

lemma rnd64_bound:
  assumes "\<bar>x\<bar> \<le> real N * 2 ^ k" "N < 2 ^ 24" "real N * 2 ^ k < 2 ^ 128"
  shows "\<exists>z. rnd binary64 x = Fin z \<and> \<bar>z\<bar> \<le> real N * 2 ^ k"
proof (rule rnd_bound_nat)
  show "\<bar>x\<bar> \<le> real N * 2 ^ k" by (rule assms(1))
  have "(2::nat) ^ 24 \<le> 2 ^ 53" by (rule power_increasing) simp_all
  with assms(2) show "N < 2 ^ prec binary64" by (simp add: binary64_def)
  show "emin binary64 - (int (prec binary64) - 1) \<le> 0" by (simp add: binary64_def)
  have "(2::real) ^ 128 \<le> 2 ^ 1024" by (rule power_increasing) simp_all
  with assms(3) have "real N * 2 ^ k < 2 ^ 1024" by linarith
  then show "real N * 2 ^ k < 2 ^ nat (ebound binary64)" by (simp add: binary64_def)
  show "0 \<le> ebound binary64" by (simp add: binary64_def)
qed

text \<open>A value that is NaN, or finite and at most \<open>b\<close> in magnitude.\<close>

lemma sum32_bound:
  assumes acc: "\<bar>a\<bar> \<le> real j * 2 ^ k"
    and xs: "\<forall>x \<in> set xs. \<exists>t. x = Fin t \<and> \<bar>t\<bar> \<le> 2 ^ k"
    and n: "j + length xs < 2 ^ 24" and b: "real (j + length xs) * 2 ^ k < 2 ^ 128"
  shows "\<exists>s. foldl (fl_add binary32) (Fin a) xs = Fin s \<and> \<bar>s\<bar> \<le> real (j + length xs) * 2 ^ k"
  using assms
proof (induction xs arbitrary: a j)
  case Nil
  then show ?case by simp
next
  case (Cons x xs)
  from Cons.prems(2) obtain t where t: "x = Fin t" "\<bar>t\<bar> \<le> 2 ^ k" by auto
  have "\<bar>a + t\<bar> \<le> real j * 2 ^ k + 2 ^ k" using Cons.prems(1) t(2) by linarith
  also have "\<dots> = real (Suc j) * 2 ^ k" by (simp add: algebra_simps)
  finally have le: "\<bar>a + t\<bar> \<le> real (Suc j) * 2 ^ k" .
  have "real (Suc j) * 2 ^ k \<le> real (j + length (x # xs)) * (2 ^ k :: real)"
    by (intro mult_right_mono) simp_all
  with Cons.prems(4) have fin: "real (Suc j) * 2 ^ k < (2::real) ^ 128" by linarith
  have "Suc j < 2 ^ 24" using Cons.prems(3) by simp
  with le fin obtain z where z: "rnd binary32 (a + t) = Fin z" "\<bar>z\<bar> \<le> real (Suc j) * 2 ^ k"
    using rnd32_bound[of "a + t" "Suc j" k] by blast
  have "\<exists>s. foldl (fl_add binary32) (Fin z) xs = Fin s \<and> \<bar>s\<bar> \<le> real (Suc j + length xs) * 2 ^ k"
    using z(2) Cons.prems(2,3,4) by (intro Cons.IH) simp_all
  then show ?case using t(1) z(1) by simp
qed

lemma sum32_zeros:
  assumes "\<forall>x \<in> set xs. x = Fin 0"
  shows "foldl (fl_add binary32) (Fin 0) xs = Fin 0"
  using assms by (induction xs) simp_all

lemma nanmean_bounded:
  assumes col: "\<forall>v \<in> set col. np_isnan v \<or> (np_isfinite v \<and> \<bar>fin_val v\<bar> \<le> 2 ^ k)"
    and n: "length col < 2 ^ 24" and b: "real (length col) * 2 ^ k < 2 ^ 128"
  shows "nanmean col = NaN \<or> (\<exists>m. nanmean col = Fin m \<and> \<bar>m\<bar> \<le> real (length col) * 2 ^ k)"
proof -
  let ?z = "map nan_to_zero col"
  let ?c = "length (filter (\<lambda>v. \<not> np_isnan v) col)"
  have zs: "\<forall>x \<in> set ?z. \<exists>t. x = Fin t \<and> \<bar>t\<bar> \<le> 2 ^ k"
  proof
    fix x assume "x \<in> set ?z"
    then obtain v where v: "v \<in> set col" "x = nan_to_zero v" by auto
    with col have "np_isnan v \<or> (np_isfinite v \<and> \<bar>fin_val v\<bar> \<le> 2 ^ k)" by blast
    then show "\<exists>t. x = Fin t \<and> \<bar>t\<bar> \<le> 2 ^ k"
      unfolding v(2) by (cases v) (simp_all add: nan_to_zero_def)
  qed
  have "\<exists>s. foldl (fl_add binary32) (Fin 0) ?z = Fin s \<and> \<bar>s\<bar> \<le> real (0 + length ?z) * 2 ^ k"
    using zs n b by (intro sum32_bound) simp_all
  then obtain s where s: "sum32 ?z = Fin s" "\<bar>s\<bar> \<le> real (length col) * 2 ^ k"
    by (auto simp: sum32_def)
  show ?thesis
  proof (cases "?c = 0")
    case True
    then have "\<forall>v \<in> set col. np_isnan v" by (simp add: filter_empty_conv)
    then have "\<forall>x \<in> set ?z. x = Fin 0" by (simp add: nan_to_zero_def)
    then have "sum32 ?z = Fin 0" unfolding sum32_def by (rule sum32_zeros)
    with True show ?thesis by (simp add: nanmean_def)
  next
    case False
    then have "0 < ?c" by (rule neq0_conv[THEN iffD1])
    then have "Suc 0 \<le> ?c" by (rule Suc_leI)
    then have "real (Suc 0) \<le> real ?c" by (rule of_nat_mono)
    then have c: "1 \<le> real ?c" by simp
    have "\<bar>s / real ?c\<bar> = \<bar>s\<bar> / real ?c" by simp
    also have "\<dots> \<le> \<bar>s\<bar>" using c by (simp add: divide_le_eq mult_le_cancel_left1)
    finally have q: "\<bar>s / real ?c\<bar> \<le> real (length col) * 2 ^ k" using s(2) by linarith
    from rnd64_bound[OF q n b] obtain y where
      y: "rnd binary64 (s / real ?c) = Fin y" "\<bar>y\<bar> \<le> real (length col) * 2 ^ k" by blast
    from rnd32_bound[OF y(2) n b] obtain m where
      m: "rnd binary32 y = Fin m" "\<bar>m\<bar> \<le> real (length col) * 2 ^ k" by blast
    have "nanmean col = Fin m" using False s(1) y(1) m(1) by (simp add: nanmean_def)
    with m(2) show ?thesis by blast
  qed
qed

lemma nan_to_zero_not_nan: "\<not> np_isnan (nan_to_zero v)"
  by (cases v) (simp_all add: nan_to_zero_def)

lemma fl_sub32_bounded:
  assumes a: "np_isnan a \<or> (np_isfinite a \<and> \<bar>fin_val a\<bar> \<le> 2 ^ k)"
    and m: "m = NaN \<or> (\<exists>y. m = Fin y \<and> \<bar>y\<bar> \<le> real n * 2 ^ k)"
    and n: "n + 1 < 2 ^ 24" and b: "real (n + 1) * 2 ^ k < 2 ^ 128"
  shows "np_isnan (fl_sub binary32 a m) \<or> np_isfinite (fl_sub binary32 a m)"
proof (cases "np_isnan a \<or> m = NaN")
  case True
  then show ?thesis by (cases a; cases m) (auto simp: fl_sub_def)
next
  case False
  with a m obtain x y where x: "a = Fin x" "\<bar>x\<bar> \<le> 2 ^ k"
    and y: "m = Fin y" "\<bar>y\<bar> \<le> real n * 2 ^ k"
    by (cases a) auto
  have "\<bar>x - y\<bar> \<le> 2 ^ k + real n * 2 ^ k" using x(2) y(2) by linarith
  also have "\<dots> = real (n + 1) * 2 ^ k" by (simp add: algebra_simps)
  finally have "\<bar>x - y\<bar> \<le> real (n + 1) * 2 ^ k" .
  from rnd32_bound[OF this n b] obtain z where "rnd binary32 (x - y) = Fin z" by blast
  then show ?thesis by (simp add: fl_sub_def x(1) y(1))
qed

text \<open>
  C7, as amended. The array after the demeaning cell has the shape of the input and no NaN
  entry. Its entries are all finite when the entries of the input are NaN or finite
  float32 values of magnitude at most \<open>2 ^ k\<close>, with \<open>(rows + 1) * 2 ^ k < 2 ^ 128\<close> and
  \<open>rows + 1 < 2 ^ 24\<close>, so that no column sum and no difference leaves the range of
  float32; a column of NaN entries alone has the mean NaN and ends as a column of zeros.
\<close>

theorem demean_finite:
  assumes m: "is_matrix ratings"
  shows "has_shape (demean ratings) (length ratings) (ncols ratings)
      \<and> (\<forall>r \<in> set (demean ratings). \<forall>v \<in> set r. \<not> np_isnan v)
      \<and> ((\<forall>r \<in> set ratings. \<forall>v \<in> set r.
              np_isnan v \<or> (np_isfinite v \<and> \<bar>fin_val v\<bar> \<le> 2 ^ k))
           \<and> length ratings + 1 < 2 ^ 24 \<and> real (length ratings + 1) * 2 ^ k < 2 ^ 128
          \<longrightarrow> fin_matrix (demean ratings))"
proof -
  define means where "means = nanmean_axis0 ratings"
  have lm: "length means = ncols ratings" by (simp add: means_def nanmean_axis0_def)
  have shape: "has_shape (demean ratings) (length ratings) (ncols ratings)"
    using m lm by (auto simp: has_shape_def demean_def Let_def is_matrix_def means_def)
  have nonan: "\<forall>r \<in> set (demean ratings). \<forall>v \<in> set r. \<not> np_isnan v"
    by (auto simp: demean_def Let_def nan_to_zero_not_nan)
  have fin: "fin_matrix (demean ratings)"
    if e: "\<forall>r \<in> set ratings. \<forall>v \<in> set r. np_isnan v \<or> (np_isfinite v \<and> \<bar>fin_val v\<bar> \<le> 2 ^ k)"
      and n: "length ratings + 1 < 2 ^ 24"
      and b: "real (length ratings + 1) * 2 ^ k < 2 ^ 128"
  proof -
    have n': "length ratings < 2 ^ 24" using n by simp
    have "real (length ratings) * 2 ^ k \<le> real (length ratings + 1) * (2 ^ k :: real)"
      by (intro mult_right_mono) simp_all
    with b have b': "real (length ratings) * 2 ^ k < (2::real) ^ 128" by linarith
    have mean_ok: "x = NaN \<or> (\<exists>y. x = Fin y \<and> \<bar>y\<bar> \<le> real (length ratings) * 2 ^ k)"
      if "x \<in> set means" for x
    proof -
      from that obtain j where j: "j < ncols ratings" "x = nanmean (column ratings j)"
        by (auto simp: means_def nanmean_axis0_def)
      have l: "length (column ratings j) = length ratings" by (simp add: column_def)
      have "\<forall>v \<in> set (column ratings j). np_isnan v \<or> (np_isfinite v \<and> \<bar>fin_val v\<bar> \<le> 2 ^ k)"
      proof
        fix v assume "v \<in> set (column ratings j)"
        then obtain r where r: "r \<in> set ratings" "v = r ! j" by (auto simp: column_def)
        with m j have "j < length r" by (simp add: is_matrix_def)
        then have "v \<in> set r" using r by simp
        with e r show "np_isnan v \<or> (np_isfinite v \<and> \<bar>fin_val v\<bar> \<le> 2 ^ k)" by blast
      qed
      then show ?thesis
        unfolding j(2) using nanmean_bounded[of "column ratings j" k] n' b' by (simp add: l)
    qed
    show ?thesis
      unfolding fin_matrix_def
    proof (intro ballI)
      fix row v assume "row \<in> set (demean ratings)" "v \<in> set row"
      then obtain r a x where h: "r \<in> set ratings" "(a, x) \<in> set (zip r means)"
        "v = nan_to_zero (fl_sub binary32 a x)"
        by (auto simp: demean_def Let_def means_def)
      from h(2) have ax: "a \<in> set r" "x \<in> set means"
        by (auto dest: set_zip_leftD set_zip_rightD)
      from ax(1) h(1) e have "np_isnan a \<or> (np_isfinite a \<and> \<bar>fin_val a\<bar> \<le> 2 ^ k)" by blast
      moreover from ax(2) have "x = NaN \<or> (\<exists>y. x = Fin y \<and> \<bar>y\<bar> \<le> real (length ratings) * 2 ^ k)"
        by (rule mean_ok)
      ultimately have "np_isnan (fl_sub binary32 a x) \<or> np_isfinite (fl_sub binary32 a x)"
        using n b by (rule fl_sub32_bounded)
      then show "np_isfinite v" unfolding h(3)
        by (cases "fl_sub binary32 a x") (simp_all add: nan_to_zero_def)
    qed
  qed
  from shape nonan fin show ?thesis by blast
qed

theorem demean_finite_witness:
  "is_matrix ex_ratings
   \<and> nanmean_axis0 ex_ratings = [Fin 2, NaN]
   \<and> demean ex_ratings = [[Fin (- 1), Fin 0], [Fin 1, Fin 0], [Fin 0, Fin 0]]
   \<and> length ex_ratings + 1 < 2 ^ 24 \<and> real (length ex_ratings + 1) * 2 ^ 2 < 2 ^ 128
   \<and> has_shape (demean ex_ratings) (length ex_ratings) (ncols ex_ratings)
   \<and> fin_matrix (demean ex_ratings)"
proof -
  have m: "is_matrix ex_ratings" by (simp add: is_matrix_def ncols_def ex_ratings_def)
  have a: "nanmean_axis0 ex_ratings = [Fin 2, NaN]"
    by (simp add: nanmean_axis0_def nanmean_def sum32_def column_def ncols_def nan_to_zero_def
         ex_ratings_def upt_rec numeral_2_eq_2)
  have v: "demean ex_ratings = [[Fin (- 1), Fin 0], [Fin 1, Fin 0], [Fin 0, Fin 0]]"
    by (simp add: demean_def a fl_sub_def) (simp add: ex_ratings_def nan_to_zero_def)
  have e: "\<forall>r \<in> set ex_ratings. \<forall>v \<in> set r.
             np_isnan v \<or> (np_isfinite v \<and> \<bar>fin_val v\<bar> \<le> 2 ^ 2)"
    by (simp add: ex_ratings_def)
  have n: "length ex_ratings + 1 < 2 ^ 24" by (simp add: ex_ratings_def)
  have b: "real (length ex_ratings + 1) * 2 ^ 2 < 2 ^ 128" by (simp add: ex_ratings_def)
  note t = demean_finite[OF m, of 2]
  from t have s: "has_shape (demean ex_ratings) (length ex_ratings) (ncols ex_ratings)" by blast
  from t e n b have f: "fin_matrix (demean ex_ratings)" by blast
  from m a v n b s f show ?thesis by (intro conjI)
qed

text \<open>
  C7 as stated fails: the entries of \<open>ex_large_ratings\<close> are finite float32 values, their
  sum is infinite, the mean of the column is infinite, and both entries of the result are
  \<open>-inf\<close>.
\<close>

theorem demean_infinite_counterexample:
  "has_dtype binary32 ex_large_ratings \<and> is_matrix ex_large_ratings \<and> fin_matrix ex_large_ratings
   \<and> nanmean_axis0 ex_large_ratings = [PInf]
   \<and> demean ex_large_ratings = [[NInf], [NInf]]
   \<and> \<not> fin_matrix (demean ex_large_ratings)"
proof -
  have m: "is_matrix ex_large_ratings" by (simp add: is_matrix_def ncols_def ex_large_ratings_def)
  have f: "fin_matrix ex_large_ratings" by (simp add: fin_matrix_def ex_large_ratings_def)
  have p: "rnd binary32 (2 ^ 127) = Fin (2 ^ 127)" by (rule rnd32_pow2) simp
  have "(2::real) ^ 128 \<le> 2 ^ 127 + 2 ^ 127" by simp
  then have o: "rnd binary32 (2 ^ 127 + 2 ^ 127) = PInf" by (rule rnd32_overflow)
  have s: "sum32 [Fin (2 ^ 127), Fin (2 ^ 127)] = PInf"
    unfolding sum32_def by (simp only: foldl.simps fl_add.simps add_0 p o)
  have a: "nanmean_axis0 ex_large_ratings = [PInf]"
    by (simp add: nanmean_axis0_def nanmean_def column_def ncols_def nan_to_zero_def
         ex_large_ratings_def s[simplified])
  have v: "demean ex_large_ratings = [[NInf], [NInf]]"
    by (simp add: demean_def a fl_sub_def) (simp add: ex_large_ratings_def nan_to_zero_def)
  have n: "\<not> fin_matrix (demean ex_large_ratings)" by (simp add: v fin_matrix_def)
  have t: "has_dtype binary32 ex_large_ratings"
    by (simp add: has_dtype_def is_value_def ex_large_ratings_def p[simplified])
  from t m f a v n show ?thesis by (intro conjI)
qed

end
